theory Spec2Isabelle
  imports Complex_Main "HOL-Library.Sublist"
begin

section \<open>Python strings\<close>

text \<open>
  A Python \<open>str\<close> is modelled as a \<open>string\<close> whose characters are ASCII code points.
  \<open>str.lower\<close>, \<open>str.strip\<close> and \<open>int\<close> are given on that alphabet: only
  \<open>A\<close>..\<open>Z\<close> change case, whitespace is what \<open>str.isspace\<close> accepts below 128,
  and the decimal digits are \<open>0\<close>..\<open>9\<close>.
\<close>

definition is_upper :: "char \<Rightarrow> bool" where
  "is_upper c = (65 \<le> (of_char c :: nat) \<and> (of_char c :: nat) \<le> 90)"

definition lower_char :: "char \<Rightarrow> char" where
  \<comment> \<open>an upper-case ASCII letter plus 32, that is, with bit 5 set\<close>
  "lower_char c =
     (if is_upper c
      then (case c of Char b0 b1 b2 b3 b4 b5 b6 b7 \<Rightarrow> Char b0 b1 b2 b3 b4 True b6 b7)
      else c)"

definition py_lower :: "string \<Rightarrow> string" where
  "py_lower s = map lower_char s"

definition is_space :: "char \<Rightarrow> bool" where
  "is_space c =
     (let n = (of_char c :: nat) in (9 \<le> n \<and> n \<le> 13) \<or> (28 \<le> n \<and> n \<le> 32))"

definition py_strip :: "string \<Rightarrow> string" where
  "py_strip s = rev (dropWhile is_space (rev (dropWhile is_space s)))"

text \<open>\<open>sub in s\<close> on strings: \<open>sub\<close> occurs in \<open>s\<close> as a contiguous block.\<close>

fun py_contains :: "string \<Rightarrow> string \<Rightarrow> bool" where
  "py_contains [] sub = (sub = [])"
| "py_contains (c # cs) sub = (prefix sub (c # cs) \<or> py_contains cs sub)"

definition is_digit :: "char \<Rightarrow> bool" where
  "is_digit c = (48 \<le> (of_char c :: nat) \<and> (of_char c :: nat) \<le> 57)"

definition digit_val :: "char \<Rightarrow> nat" where
  "digit_val c = of_char c - 48"

text \<open>
  The digits of a base-10 integer literal as \<open>int\<close> accepts them: at least one digit,
  single underscores allowed between digits only. The flag says whether the previous
  character was a digit.
\<close>

fun parse_digits :: "bool \<Rightarrow> nat \<Rightarrow> string \<Rightarrow> nat option" where
  "parse_digits pd acc [] = (if pd then Some acc else None)"
| "parse_digits pd acc (c # cs) =
     (if is_digit c then parse_digits True (10 * acc + digit_val c) cs
      else if c = CHR ''_'' \<and> pd then parse_digits False acc cs
      else None)"

definition py_int :: "string \<Rightarrow> int option" where
  \<comment> \<open>\<open>int(s)\<close>; \<open>None\<close> is the \<open>ValueError\<close>\<close>
  "py_int s =
     (case py_strip s of
        [] \<Rightarrow> None
      | c # cs \<Rightarrow>
          if c = CHR ''-'' then map_option (\<lambda>n. - int n) (parse_digits False 0 cs)
          else if c = CHR ''+'' then map_option int (parse_digits False 0 cs)
          else map_option int (parse_digits False 0 (c # cs)))"

text \<open>\<open>str(i)\<close> for an integer: its decimal digits, with a minus sign when negative.\<close>

definition digit_char :: "nat \<Rightarrow> char" where
  "digit_char d = ''0123456789'' ! d"

function str_nat :: "nat \<Rightarrow> string" where
  "str_nat n = (if n < 10 then [digit_char n] else str_nat (n div 10) @ [digit_char (n mod 10)])"
  by pat_completeness auto
termination
  by (relation "measure (\<lambda>n. n)") auto

declare str_nat.simps [simp del]

definition py_str :: "int \<Rightarrow> string" where
  "py_str i = (if i < 0 then CHR ''-'' # str_nat (nat (- i)) else str_nat (nat i))"

text \<open>\<open>sep.join(xs)\<close>\<close>

fun py_join :: "string \<Rightarrow> string list \<Rightarrow> string" where
  "py_join sep [] = []"
| "py_join sep [x] = x"
| "py_join sep (x # y # ys) = x @ sep @ py_join sep (y # ys)"

section \<open>The repository client's error (redcap\_client.py)\<close>

text \<open>
  The exception's three attributes. The message handed to \<open>Exception\<close> is only ever
  logged and is left out.
\<close>

record RedcapApiError =
  status_code :: "int option"
  response_body :: "string option"
  detection_strings :: "string list"

definition default_detection_strings :: "string list" where
  "default_detection_strings = [''unique constraint'', ''duplicate'', ''already exists'']"

definition RedcapApiError_init ::
  "int option \<Rightarrow> string option \<Rightarrow> string list option \<Rightarrow> RedcapApiError" where
  \<comment> \<open>\<open>detection_strings or [...]\<close>: \<open>None\<close> and the empty list both give the defaults\<close>
  "RedcapApiError_init sc body ds =
     \<lparr> status_code = sc, response_body = body,
       detection_strings =
         (case ds of None \<Rightarrow> default_detection_strings
          | Some l \<Rightarrow> if l = [] then default_detection_strings else l) \<rparr>"

text \<open>The loop over the detection strings, returning at the first match.\<close>

fun match_detection :: "string list \<Rightarrow> string \<Rightarrow> bool" where
  "match_detection [] body_lower = False"
| "match_detection (d # ds) body_lower =
     (if py_contains body_lower (py_lower d) then True else match_detection ds body_lower)"

definition is_unique_constraint_violation :: "RedcapApiError \<Rightarrow> bool" where
  "is_unique_constraint_violation e =
     (case status_code e of
        None \<Rightarrow> False
      | Some sc \<Rightarrow>
          if sc \<in> set [400, 409, 422] then
            (case response_body e of
               None \<Rightarrow> False
             | Some body \<Rightarrow>
                 if body \<noteq> [] then match_detection (detection_strings e) (py_lower body)
                 else False)
          else False)"

text \<open>
  The classifier in the spec's words: the status code is one of 400, 409, 422, and the body
  is present (a non-empty string) and contains, ignoring case, one of the detection strings.
\<close>

definition contains_ignoring_case :: "string \<Rightarrow> string \<Rightarrow> bool" where
  "contains_ignoring_case body d = (\<exists>p s. py_lower body = p @ py_lower d @ s)"

definition is_collision_spec :: "RedcapApiError \<Rightarrow> bool" where
  "is_collision_spec e =
     (status_code e \<in> {Some 400, Some 409, Some 422} \<and>
      (\<exists>body. response_body e = Some body \<and> body \<noteq> [] \<and>
         (\<exists>d \<in> set (detection_strings e). contains_ignoring_case body d)))"

section \<open>Rate limiter (common/email\_sender.py)\<close>

text \<open>
  \<open>time.time()\<close> and the timestamps are idealised as real numbers; the value read from
  the clock is an argument of each operation. The body of \<open>acquire\<close> runs under the
  limiter's lock, so one call is one step.
\<close>

datatype py_error = IndexError

record RateLimiter =
  max_calls :: int
  time_window :: int
  calls :: "real list"

definition RateLimiter_init :: "int \<Rightarrow> int \<Rightarrow> RateLimiter" where
  "RateLimiter_init mc tw = \<lparr> max_calls = mc, time_window = tw, calls = [] \<rparr>"

text \<open>\<open>while self.calls and self.calls[0] <= now - self.time_window: self.calls.popleft()\<close>\<close>

fun evict :: "real \<Rightarrow> real list \<Rightarrow> real list" where
  "evict bound [] = []"
| "evict bound (t # ts) = (if t \<le> bound then evict bound ts else t # ts)"

datatype acquire_result = Admitted | Wait real

definition acquire :: "real \<Rightarrow> RateLimiter \<Rightarrow> (py_error + acquire_result) \<times> RateLimiter" where
  \<comment> \<open>\<open>Admitted\<close> is the returned \<open>True\<close>, \<open>Wait w\<close> the returned \<open>wait_time\<close>;
      \<open>self.calls[0]\<close> on an empty deque raises \<open>IndexError\<close>\<close>
  "acquire now rl =
     (let cs = evict (now - real_of_int (time_window rl)) (calls rl) in
      if int (length cs) < max_calls rl
      then (Inr Admitted, rl\<lparr>calls := cs @ [now]\<rparr>)
      else (case cs of
              [] \<Rightarrow> (Inl IndexError, rl\<lparr>calls := cs\<rparr>)
            | oldest_call # _ \<Rightarrow>
                (Inr (Wait (oldest_call + real_of_int (time_window rl) - now)),
                 rl\<lparr>calls := cs\<rparr>)))"

text \<open>The limiter after calls of \<open>acquire\<close> at the given clock readings, results dropped.\<close>

fun acquire_all :: "real list \<Rightarrow> RateLimiter \<Rightarrow> RateLimiter" where
  "acquire_all [] rl = rl"
| "acquire_all (t # ts) rl = acquire_all ts (snd (acquire t rl))"

section \<open>Circuit breaker (common/email\_sender.py)\<close>

datatype CircuitState = CLOSED | OPEN | HALF_OPEN

record CircuitBreaker =
  failure_threshold :: int
  recovery_timeout :: int
  success_threshold :: int
  failure_count :: int
  success_count :: int
  last_failure_time :: "real option"
  state :: CircuitState

definition CircuitBreaker_init :: "int \<Rightarrow> int \<Rightarrow> int \<Rightarrow> CircuitBreaker" where
  "CircuitBreaker_init ft rt st =
     \<lparr> failure_threshold = ft, recovery_timeout = rt, success_threshold = st,
       failure_count = 0, success_count = 0, last_failure_time = None, state = CLOSED \<rparr>"

definition CircuitBreaker_default :: CircuitBreaker where
  \<comment> \<open>\<open>CircuitBreaker()\<close>\<close>
  "CircuitBreaker_default = CircuitBreaker_init 5 60 2"

definition record_success :: "CircuitBreaker \<Rightarrow> CircuitBreaker" where
  "record_success cb =
     (let cb1 = cb\<lparr>failure_count := 0, success_count := success_count cb + 1\<rparr> in
      if state cb1 = HALF_OPEN \<and> success_count cb1 \<ge> success_threshold cb1
      then cb1\<lparr>state := CLOSED\<rparr> else cb1)"

definition record_failure :: "real \<Rightarrow> CircuitBreaker \<Rightarrow> CircuitBreaker" where
  "record_failure now cb =
     (let cb1 = cb\<lparr>failure_count := failure_count cb + 1, success_count := 0,
                    last_failure_time := Some now\<rparr> in
      if failure_count cb1 \<ge> failure_threshold cb1 then cb1\<lparr>state := OPEN\<rparr> else cb1)"

definition can_attempt :: "real \<Rightarrow> CircuitBreaker \<Rightarrow> bool \<times> CircuitBreaker" where
  \<comment> \<open>\<open>self.last_failure_time and ...\<close>: \<open>None\<close> and \<open>0.0\<close> are both falsy\<close>
  "can_attempt now cb =
     (if state cb = CLOSED then (True, cb)
      else if state cb = OPEN then
        (case last_failure_time cb of
           None \<Rightarrow> (False, cb)
         | Some lft \<Rightarrow>
             if lft \<noteq> 0 \<and> now - lft > real_of_int (recovery_timeout cb)
             then (True, cb\<lparr>state := HALF_OPEN\<rparr>)
             else (False, cb))
      else (True, cb))"

text \<open>Any history of a breaker: the three operations in any order, at any clock readings.\<close>

datatype breaker_op = Success | Failure real | Attempt real

fun breaker_run :: "breaker_op list \<Rightarrow> CircuitBreaker \<Rightarrow> CircuitBreaker" where
  "breaker_run [] cb = cb"
| "breaker_run (Success # ops) cb = breaker_run ops (record_success cb)"
| "breaker_run (Failure t # ops) cb = breaker_run ops (record_failure t cb)"
| "breaker_run (Attempt t # ops) cb = breaker_run ops (snd (can_attempt t cb))"

text \<open>Consecutive calls of \<open>can_attempt\<close>: the answers in order, and the breaker afterwards.\<close>

fun can_attempt_all :: "real list \<Rightarrow> CircuitBreaker \<Rightarrow> bool list \<times> CircuitBreaker" where
  "can_attempt_all [] cb = ([], cb)"
| "can_attempt_all (t # ts) cb =
     (let (b, cb1) = can_attempt t cb; (bs, cb2) = can_attempt_all ts cb1 in (b # bs, cb2))"

section \<open>Multi-provider sender (common/email\_sender.py)\<close>

definition py_endswith :: "string \<Rightarrow> string \<Rightarrow> bool" where
  "py_endswith s suf = prefix (rev suf) (rev s)"

record email_data =
  to_email :: string
  subject :: string
  body :: string

text \<open>
  The dictionary a provider's \<open>send_email\<close> returns, by the keys the sender reads;
  an optional key is an \<open>option\<close>, and \<open>retry\<close> is the truth value of
  \<open>result.get('retry', False)\<close>.
\<close>

record send_result =
  r_success :: bool
  r_provider :: "string option"
  r_error :: "string option"
  r_retry :: bool
  r_status_code :: "int option"
  r_guidance :: "string option"

datatype send_reply = Returned send_result | Raised string

text \<open>
  An entry of the attempt trail: \<open>{'provider', 'attempt', 'result'}\<close> after a call that
  returned, \<open>{'provider', 'attempt', 'error'}\<close> after one that raised.
\<close>

datatype attempt = ResultAttempt string nat send_result | ErrorAttempt string nat string

text \<open>
  The dictionary \<open>_send_with_providers\<close> returns. On success the keys of the provider's
  result are merged over \<open>success\<close>, \<open>provider\<close> and \<open>attempts\<close>.
\<close>

record outcome =
  success :: bool
  provider :: "string option"
  error :: "string option"
  attempts :: "attempt list"
  guidance :: "string option"
  status_code_of :: "int option"

text \<open>
  The providers, the clock and the random number generator are the sender's environment:
  a world of type \<open>'w\<close> that each operation may read and change.
\<close>

record ('p, 'w) mail_env =
  get_provider_name :: "'p \<Rightarrow> string"
  is_healthy :: "'p \<Rightarrow> 'w \<Rightarrow> bool \<times> 'w"
  provider_send :: "'p \<Rightarrow> email_data \<Rightarrow> 'w \<Rightarrow> send_reply \<times> 'w"
  time_now :: "'w \<Rightarrow> real"
  time_sleep :: "real \<Rightarrow> 'w \<Rightarrow> 'w"
  random_uniform :: "'w \<Rightarrow> real \<times> 'w"

text \<open>
  The sender's breakers (a dictionary keyed by provider name, with an entry for every
  provider), the world, the local variables \<open>last_error\<close> and \<open>attempts\<close> of
  \<open>_send_with_providers\<close>, a log of every call of a provider's \<open>send_email\<close>, and a
  log of every call of a breaker's method, with the name the breaker is kept under and the
  clock reading taken for the call.
\<close>

record 'w sender_state =
  circuit_breakers :: "string \<Rightarrow> CircuitBreaker"
  world :: 'w
  last_error :: "string option"
  attempts_acc :: "attempt list"
  sent :: "(string \<times> send_reply) list"
  breaker_calls :: "(string \<times> breaker_op) list"

definition priority_stanford :: "string \<Rightarrow> nat" where
  "priority_stanford n = (if n = ''sendgrid'' then 0 else if n = ''stanford_smtp'' then 1 else 2)"

definition priority_external :: "string \<Rightarrow> nat" where
  "priority_external n = (if n = ''sendgrid'' then 0 else if n = ''stanford_smtp'' then 2 else 1)"

definition is_stanford_recipient :: "string \<Rightarrow> bool" where
  "is_stanford_recipient addr = py_endswith (py_lower addr) ''@stanford.edu''"

definition provider_order :: "('p \<Rightarrow> string) \<Rightarrow> string \<Rightarrow> 'p list \<Rightarrow> 'p list" where
  \<comment> \<open>\<open>sorted\<close> is stable, as \<open>sort_key\<close> is\<close>
  "provider_order name addr ps =
     (if is_stanford_recipient addr
      then sort_key (\<lambda>p. priority_stanford (name p)) ps
      else sort_key (\<lambda>p. priority_external (name p)) ps)"

definition backoff :: "('p, 'w) mail_env \<Rightarrow> nat \<Rightarrow> 'w sender_state \<Rightarrow> 'w sender_state" where
  \<comment> \<open>\<open>delay = min(2 ** attempt + random.uniform(0, 1), 30); time.sleep(delay)\<close>\<close>
  "backoff env attempt st =
     (let (u, w1) = random_uniform env (world st);
          delay = min (2 ^ attempt + u) 30
      in st\<lparr>world := time_sleep env delay w1\<rparr>)"

definition transient_status :: "int option \<Rightarrow> bool" where
  "transient_status sc = (case sc of None \<Rightarrow> False | Some c \<Rightarrow> c \<in> set [429, 500, 502, 503, 504])"

text \<open>
  \<open>for attempt in range(self.max_retries)\<close>, over the attempts still to make. The result
  is \<open>Some\<close> outcome when the loop returned from the function, \<open>None\<close> when it ended or
  was left by \<open>break\<close>.
\<close>

fun retry_loop ::
  "('p, 'w) mail_env \<Rightarrow> int \<Rightarrow> 'p \<Rightarrow> email_data \<Rightarrow> nat list \<Rightarrow> 'w sender_state
   \<Rightarrow> outcome option \<times> 'w sender_state" where
  "retry_loop env mr p ed [] st = (None, st)"
| "retry_loop env mr p ed (attempt # rest) st =
     (let name = get_provider_name env p;
          reply_w = provider_send env p ed (world st);
          st1 = st\<lparr>world := snd reply_w, sent := sent st @ [(name, fst reply_w)]\<rparr>
      in case fst reply_w of
           Returned r \<Rightarrow>
             (let st2 = st1\<lparr>attempts_acc := attempts_acc st1 @ [ResultAttempt name (attempt + 1) r]\<rparr>
              in if r_success r then
                   (Some \<lparr> success = r_success r,
                           provider = Some (case r_provider r of None \<Rightarrow> name | Some n \<Rightarrow> n),
                           error = r_error r,
                           attempts = attempts_acc st2,
                           guidance = r_guidance r,
                           status_code_of = r_status_code r \<rparr>,
                    st2\<lparr>circuit_breakers :=
                          (circuit_breakers st2)(name := record_success (circuit_breakers st2 name)),
                        breaker_calls := breaker_calls st2 @ [(name, Success)]\<rparr>)
                 else
                   (let st3 = st2\<lparr>last_error :=
                                     Some (case r_error r of None \<Rightarrow> ''Unknown error'' | Some e \<Rightarrow> e)\<rparr>
                    in if r_retry r \<or> transient_status (r_status_code r)
                       then retry_loop env mr p ed rest
                              (if int attempt < mr - 1 then backoff env attempt st3 else st3)
                       else (None, st3)))
         | Raised e \<Rightarrow>
             (let st2 = st1\<lparr>last_error := Some e,
                             attempts_acc := attempts_acc st1 @ [ErrorAttempt name (attempt + 1) e]\<rparr>
              in retry_loop env mr p ed rest
                   (if int attempt < mr - 1 then backoff env attempt st2 else st2)))"

definition all_failed :: "'w sender_state \<Rightarrow> outcome" where
  "all_failed st =
     \<lparr> success = False,
       provider = None,
       error = Some (''All providers failed. Last error: '' @
                     (case last_error st of None \<Rightarrow> ''None'' | Some e \<Rightarrow> e)),
       attempts = attempts_acc st,
       guidance =
         (if attempts_acc st \<noteq> [] then
            (case last (attempts_acc st) of
               ResultAttempt n k r \<Rightarrow> r_guidance r
             | ErrorAttempt n k e \<Rightarrow> None)
          else None),
       status_code_of = None \<rparr>"

text \<open>\<open>for provider in provider_order\<close>\<close>

fun provider_loop ::
  "('p, 'w) mail_env \<Rightarrow> int \<Rightarrow> email_data \<Rightarrow> 'p list \<Rightarrow> 'w sender_state
   \<Rightarrow> outcome \<times> 'w sender_state" where
  "provider_loop env mr ed [] st = (all_failed st, st)"
| "provider_loop env mr ed (p # ps) st =
     (let name = get_provider_name env p;
          ok_cb = can_attempt (time_now env (world st)) (circuit_breakers st name);
          st1 = st\<lparr>circuit_breakers := (circuit_breakers st)(name := snd ok_cb),
                  breaker_calls :=
                    breaker_calls st @ [(name, Attempt (time_now env (world st)))]\<rparr>
      in if \<not> fst ok_cb then provider_loop env mr ed ps st1
         else
           (let healthy_w = is_healthy env p (world st1);
                st2 = st1\<lparr>world := snd healthy_w\<rparr>
            in if \<not> fst healthy_w then provider_loop env mr ed ps st2
               else
                 (case retry_loop env mr p ed [0..<nat mr] st2 of
                    (Some out, st3) \<Rightarrow> (out, st3)
                  | (None, st3) \<Rightarrow>
                      provider_loop env mr ed ps
                        (st3\<lparr>circuit_breakers :=
                               (circuit_breakers st3)
                                 (name := record_failure (time_now env (world st3))
                                            (circuit_breakers st3 name)),
                             breaker_calls :=
                               breaker_calls st3 @
                               [(name, Failure (time_now env (world st3)))]\<rparr>))))"

definition send_with_providers ::
  "('p, 'w) mail_env \<Rightarrow> 'p list \<Rightarrow> int \<Rightarrow> email_data \<Rightarrow> 'w sender_state
   \<Rightarrow> outcome \<times> 'w sender_state" where
  "send_with_providers env providers max_retries ed st =
     provider_loop env max_retries ed
       (provider_order (get_provider_name env) (to_email ed) providers)
       (st\<lparr>last_error := None, attempts_acc := []\<rparr>)"

text \<open>Reading the attempt trail: whether an entry is a success, the call it records, its error.\<close>

fun attempt_ok :: "attempt \<Rightarrow> bool" where
  "attempt_ok (ResultAttempt n k r) = r_success r"
| "attempt_ok (ErrorAttempt n k e) = False"

fun attempt_reply :: "attempt \<Rightarrow> string \<times> send_reply" where
  "attempt_reply (ResultAttempt n k r) = (n, Returned r)"
| "attempt_reply (ErrorAttempt n k e) = (n, Raised e)"

fun attempt_error :: "attempt \<Rightarrow> string" where
  "attempt_error (ResultAttempt n k r) = (case r_error r of None \<Rightarrow> ''Unknown error'' | Some e \<Rightarrow> e)"
| "attempt_error (ErrorAttempt n k e) = e"

text \<open>
  What holds of the sender's state while no attempt has succeeded, \<open>s0\<close> being the log at
  the start: no entry of the trail is a success, the trail records exactly the calls made,
  and \<open>last_error\<close> is the error of the last entry.
\<close>

definition trail_inv :: "(string \<times> send_reply) list \<Rightarrow> 'w sender_state \<Rightarrow> bool" where
  "trail_inv s0 st \<longleftrightarrow>
     (\<forall>a \<in> set (attempts_acc st). \<not> attempt_ok a) \<and>
     sent st = s0 @ map attempt_reply (attempts_acc st) \<and>
     last_error st =
       (if attempts_acc st = [] then None else Some (attempt_error (last (attempts_acc st))))"

text \<open>
  What holds when the sender returns a success: the last entry of the trail is the success,
  by a provider named in \<open>names\<close>; no earlier entry is one; the trail records exactly the
  calls made; and that provider's breaker has just had \<open>record_success\<close>.
\<close>

definition delivered :: "(string \<times> send_reply) list \<Rightarrow> string set \<Rightarrow> outcome \<Rightarrow> 'w sender_state \<Rightarrow> bool" where
  "delivered s0 names out st \<longleftrightarrow>
     success out \<and>
     (\<exists>pre n k r bs.
        attempts out = pre @ [ResultAttempt n k r] \<and> r_success r \<and> n \<in> names \<and>
        (\<forall>a \<in> set pre. \<not> attempt_ok a) \<and>
        sent st = s0 @ map attempt_reply (attempts out) \<and>
        circuit_breakers st = bs(n := record_success (bs n)))"

text \<open>
  The breakers after a log of calls: each call is made on the breaker kept under its name,
  as that breaker stands after the calls before it.
\<close>

fun replay_calls ::
  "(string \<times> breaker_op) list \<Rightarrow> (string \<Rightarrow> CircuitBreaker) \<Rightarrow> (string \<Rightarrow> CircuitBreaker)" where
  "replay_calls [] bs = bs"
| "replay_calls ((n, Success) # cs) bs = replay_calls cs (bs(n := record_success (bs n)))"
| "replay_calls ((n, Failure t) # cs) bs = replay_calls cs (bs(n := record_failure t (bs n)))"
| "replay_calls ((n, Attempt t) # cs) bs = replay_calls cs (bs(n := snd (can_attempt t (bs n))))"

text \<open>
  What holds of the breakers while no attempt has succeeded, \<open>c0\<close> and \<open>b0\<close> being the
  log of calls and the breakers at the start: no call of \<open>record_success\<close> has been made,
  and the breakers are what the calls logged since the start make of \<open>b0\<close>.
\<close>

definition calls_inv ::
  "(string \<times> breaker_op) list \<Rightarrow> (string \<Rightarrow> CircuitBreaker) \<Rightarrow> 'w sender_state \<Rightarrow> bool" where
  "calls_inv c0 b0 st \<longleftrightarrow>
     (\<exists>ops. breaker_calls st = c0 @ ops \<and> (\<forall>c \<in> set ops. snd c \<noteq> Success) \<and>
        circuit_breakers st = replay_calls ops b0)"

text \<open>
  What holds of the breakers when the sender returns a success: the last call logged is
  \<open>record_success\<close> on the breaker of the provider of the last attempt, made on that
  breaker as the calls before had left it, and it is the only call of \<open>record_success\<close>.
\<close>

definition success_logged ::
  "(string \<times> breaker_op) list \<Rightarrow> (string \<Rightarrow> CircuitBreaker) \<Rightarrow> outcome \<Rightarrow> 'w sender_state
   \<Rightarrow> bool" where
  "success_logged c0 b0 out st \<longleftrightarrow>
     attempts out \<noteq> [] \<and>
     (\<exists>ops. breaker_calls st =
              c0 @ ops @ [(fst (attempt_reply (last (attempts out))), Success)] \<and>
        (\<forall>c \<in> set ops. snd c \<noteq> Success) \<and>
        circuit_breakers st =
          (replay_calls ops b0)
            (fst (attempt_reply (last (attempts out))) :=
               record_success
                 (replay_calls ops b0 (fst (attempt_reply (last (attempts out)))))))"

text \<open>A small world for concrete runs: SendGrid answers 401, the Stanford relay may work.\<close>

definition demo_fail :: send_result where
  "demo_fail = \<lparr> r_success = False, r_provider = Some ''sendgrid'',
       r_error = Some ''Status code: 401'', r_retry = False, r_status_code = Some 401,
       r_guidance = None \<rparr>"

definition demo_ok :: send_result where
  "demo_ok = \<lparr> r_success = True, r_provider = Some ''stanford_smtp'',
       r_error = None, r_retry = False, r_status_code = None, r_guidance = None \<rparr>"

definition demo_env :: "bool \<Rightarrow> (string, nat) mail_env" where
  "demo_env smtp_works =
     \<lparr> get_provider_name = (\<lambda>p. p),
       is_healthy = (\<lambda>p w. (True, w)),
       provider_send = (\<lambda>p ed w.
          (if p = ''stanford_smtp'' \<and> smtp_works then Returned demo_ok else Returned demo_fail,
           w + 1)),
       time_now = (\<lambda>w. 1000),
       time_sleep = (\<lambda>d w. w),
       random_uniform = (\<lambda>w. (0, w)) \<rparr>"

definition demo_state :: "nat sender_state" where
  "demo_state = \<lparr> circuit_breakers = (\<lambda>n. CircuitBreaker_default), world = 0,
       last_error = None, attempts_acc = [], sent = [], breaker_calls = [] \<rparr>"

definition demo_mail :: email_data where
  "demo_mail = \<lparr> to_email = ''pat@stanford.edu'', subject = ''Study'', body = ''Hello'' \<rparr>"

section \<open>The repository client (redcap\_client.py)\<close>

text \<open>
  A record of the repository is a JSON object of strings: the list of its fields and
  values. \<open>record.get(k)\<close> is \<open>map_of r k\<close>, and \<open>record.get(k, '')\<close> is
  \<open>record_get r k\<close>.
\<close>

type_synonym redcap_record = "(string \<times> string) list"

definition record_get :: "redcap_record \<Rightarrow> string \<Rightarrow> string" where
  "record_get r k = (case map_of r k of None \<Rightarrow> [] | Some v \<Rightarrow> v)"

text \<open>
  A record to import: field names and values, where the value of \<open>record_id\<close> is
  \<open>None\<close> when the exported record had none.
\<close>

type_synonym update_data = "(string \<times> string option) list"

text \<open>
  The two requests the assigner posts: an export with its \<open>fields\<close> and optional
  \<open>filterLogic\<close>, an import with its records and \<open>overwriteBehavior\<close>.
\<close>

datatype request =
    ExportRecords "string list" "string option"
  | ImportRecords "update_data list" string

text \<open>
  What \<open>session.post\<close> does: it raises a \<open>RequestException\<close> or returns a response
  with a status code and a text.
\<close>

datatype http_reply = RequestException | HttpResponse int string

text \<open>
  The exceptions of the assigner. \<open>RangeExhausted\<close> is the \<open>ValueError\<close> raised by
  \<open>get_next_dynamic_id\<close>, \<open>JSONDecodeError\<close> the \<open>ValueError\<close> raised by
  \<open>json.loads\<close>; \<open>UnboundLocalError\<close> is raised when a local variable is read before
  it is bound.
\<close>

datatype alloc_error =
    ApiError RedcapApiError
  | RangeExhausted
  | JSONDecodeError
  | UnboundLocalError

text \<open>
  The environment of the assigner: the repository behind \<open>session.post\<close>, a state machine
  over a world \<open>'w\<close>; \<open>json.loads\<close> (\<open>None\<close> when it raises; for an import only
  that is used); the client's detection strings; the eligibility checker; and \<open>time.sleep\<close>.
\<close>

record 'w redcap_env =
  session_post :: "request \<Rightarrow> 'w \<Rightarrow> http_reply \<times> 'w"
  json_loads :: "string \<Rightarrow> redcap_record list option"
  concurrency_detection_list :: "string list"
  check_eligibility :: "redcap_record \<Rightarrow> string \<times> string list"
  sleep :: "real \<Rightarrow> 'w \<Rightarrow> 'w"

datatype event = Posted request | Slept real

record stats =
  processed :: int
  assigned_healthy :: int
  assigned_mdd :: int
  not_eligible :: int
  review_required :: int
  skipped :: int
  errors :: int

text \<open>
  The state of a run of \<open>process_records\<close>: the world, the log of the requests posted
  and the sleeps made, the counters, and the local variables \<open>new_id\<close> and \<open>attempt\<close>,
  which stay bound from one record to the next.
\<close>

record 'w alloc_state =
  repo :: 'w
  trace :: "event list"
  counters :: stats
  new_id :: "int option"
  attempt :: "nat option"

definition make_request ::
  "'w redcap_env \<Rightarrow> request \<Rightarrow> 'w alloc_state \<Rightarrow> (alloc_error + string) \<times> 'w alloc_state" where
  "make_request env req st =
     (let reply_w = session_post env req (repo st);
          st1 = st\<lparr>repo := snd reply_w, trace := trace st @ [Posted req]\<rparr>
      in case fst reply_w of
           HttpResponse sc txt \<Rightarrow>
             if sc \<ge> 400
             then (Inl (ApiError (RedcapApiError_init (Some sc) (Some txt)
                                    (Some (concurrency_detection_list env)))), st1)
             else (Inr txt, st1)
         | RequestException \<Rightarrow>
             (Inl (ApiError (RedcapApiError_init None None None)), st1))"

definition export_records ::
  "'w redcap_env \<Rightarrow> string list \<Rightarrow> string option \<Rightarrow> 'w alloc_state
   \<Rightarrow> (alloc_error + redcap_record list) \<times> 'w alloc_state" where
  "export_records env flds filter_logic st =
     (case make_request env (ExportRecords flds filter_logic) st of
        (Inl e, st1) \<Rightarrow> (Inl e, st1)
      | (Inr txt, st1) \<Rightarrow>
          (case json_loads env txt of
             None \<Rightarrow> (Inl JSONDecodeError, st1)
           | Some rs \<Rightarrow> (Inr rs, st1)))"

definition import_records ::
  "'w redcap_env \<Rightarrow> update_data list \<Rightarrow> string \<Rightarrow> 'w alloc_state
   \<Rightarrow> (alloc_error + unit) \<times> 'w alloc_state" where
  "import_records env records overwrite st =
     (case make_request env (ImportRecords records overwrite) st of
        (Inl e, st1) \<Rightarrow> (Inl e, st1)
      | (Inr txt, st1) \<Rightarrow>
          (case json_loads env txt of
             None \<Rightarrow> (Inl JSONDecodeError, st1)
           | Some rs \<Rightarrow> (Inr (), st1)))"

section \<open>The identifier assigner (eligible\_id\_assigner.py)\<close>

record id_range =
  range_min :: int
  range_max :: int

datatype group_type = healthy_control | mdd_participant

fun ID_RANGES :: "group_type \<Rightarrow> id_range" where
  "ID_RANGES healthy_control = \<lparr> range_min = 3000, range_max = 10199 \<rparr>"
| "ID_RANGES mdd_participant = \<lparr> range_min = 10200, range_max = 20000 \<rparr>"

text \<open>The loop of \<open>get_next_dynamic_id\<close> that fills \<open>existing_ids\<close>.\<close>

fun collect_ids :: "id_range \<Rightarrow> redcap_record list \<Rightarrow> int list \<Rightarrow> int list" where
  "collect_ids rng [] existing_ids = existing_ids"
| "collect_ids rng (r # rs) existing_ids =
     (let id_str = py_strip (record_get r ''assigned_study_id_a690e9'') in
      if id_str \<noteq> [] then
        (case py_int id_str of
           Some id_value \<Rightarrow>
             if range_min rng \<le> id_value \<and> id_value \<le> range_max rng
             then collect_ids rng rs (existing_ids @ [id_value])
             else collect_ids rng rs existing_ids
         | None \<Rightarrow> collect_ids rng rs existing_ids)
      else collect_ids rng rs existing_ids)"

text \<open>Lines 53 to 82: the next identifier from the exported records.\<close>

definition next_id :: "id_range \<Rightarrow> redcap_record list \<Rightarrow> alloc_error + int" where
  "next_id rng records =
     (case collect_ids rng records [] of
        [] \<Rightarrow> Inr (range_min rng)
      | x # xs \<Rightarrow>
          (let max_id = fold max xs x; nxt = max_id + 1
           in if nxt > range_max rng then Inl RangeExhausted else Inr nxt))"

definition get_next_dynamic_id ::
  "'w redcap_env \<Rightarrow> group_type \<Rightarrow> 'w alloc_state \<Rightarrow> (alloc_error + int) \<times> 'w alloc_state" where
  "get_next_dynamic_id env g st =
     (case export_records env [''record_id'', ''assigned_study_id_a690e9''] None st of
        (Inl e, st1) \<Rightarrow> (Inl e, st1)
      | (Inr records, st1) \<Rightarrow> (next_id (ID_RANGES g) records, st1))"

definition determine_group :: "int \<Rightarrow> (group_type \<times> string) option" where
  \<comment> \<open>\<open>None\<close> is the \<open>ValueError\<close> for a score above 20\<close>
  "determine_group qids_score =
     (if qids_score \<le> 10 then Some (healthy_control, ''Healthy Control'')
      else if qids_score \<le> 20 then Some (mdd_participant, ''MDD Participant'')
      else None)"

definition MAX_RETRIES :: nat where
  "MAX_RETRIES = 3"

definition add_error :: "'w alloc_state \<Rightarrow> 'w alloc_state" where
  "add_error st = st\<lparr>counters := (counters st)\<lparr>errors := errors (counters st) + 1\<rparr>\<rparr>"

definition update_data_of :: "string option \<Rightarrow> int \<Rightarrow> update_data" where
  "update_data_of record_id nid =
     [(''record_id'', record_id),
      (''assigned_study_id_a690e9'', Some (py_str nid)),
      (''pipeline_processing_status'', Some ''eligible_id_assigned'')]"

definition with_flag :: "update_data \<Rightarrow> update_data" where
  \<comment> \<open>\<open>update_data_with_flag\<close>\<close>
  "with_flag ud = ud @ [(''id_assigned'', Some ''1'')]"

definition count_assigned :: "group_type \<Rightarrow> 'w alloc_state \<Rightarrow> 'w alloc_state" where
  "count_assigned g st =
     (let c = counters st; c1 = c\<lparr>processed := processed c + 1\<rparr>
      in st\<lparr>counters :=
              (if g = healthy_control then c1\<lparr>assigned_healthy := assigned_healthy c1 + 1\<rparr>
               else c1\<lparr>assigned_mdd := assigned_mdd c1 + 1\<rparr>)\<rparr>)"

text \<open>
  The \<open>try\<close> block of one attempt: read the next identifier, write it with the
  \<open>id_assigned\<close> flag and, if that raises a \<open>RedcapApiError\<close>, write it without the flag.
\<close>

definition try_assign ::
  "'w redcap_env \<Rightarrow> string option \<Rightarrow> group_type \<Rightarrow> 'w alloc_state
   \<Rightarrow> (alloc_error + unit) \<times> 'w alloc_state" where
  "try_assign env record_id g st =
     (case get_next_dynamic_id env g st of
        (Inl e, st1) \<Rightarrow> (Inl e, st1)
      | (Inr nid, st1) \<Rightarrow>
          (let st2 = st1\<lparr>new_id := Some nid\<rparr>;
               ud = update_data_of record_id nid
           in case import_records env [with_flag ud] ''overwrite'' st2 of
                (Inr u, st3) \<Rightarrow> (Inr (), count_assigned g st3)
              | (Inl (ApiError a), st3) \<Rightarrow>
                  (case import_records env [ud] ''overwrite'' st3 of
                     (Inr u, st4) \<Rightarrow> (Inr (), count_assigned g st4)
                   | (Inl e, st4) \<Rightarrow> (Inl e, st4))
              | (Inl e, st3) \<Rightarrow> (Inl e, st3)))"

text \<open>
  The two \<open>except\<close> clauses of the retry loop. The warning logged for a uniqueness
  violation formats \<open>new_id\<close>, which raises when \<open>new_id\<close> is not bound yet.
\<close>

datatype ctl = Break | Continue | Raise alloc_error

definition backoff_sleep :: "'w redcap_env \<Rightarrow> nat \<Rightarrow> 'w alloc_state \<Rightarrow> 'w alloc_state" where
  \<comment> \<open>\<open>time.sleep(0.5 * (2 ** attempt))\<close>\<close>
  "backoff_sleep env k st =
     st\<lparr>repo := sleep env ((1 / 2) * 2 ^ k) (repo st),
        trace := trace st @ [Slept ((1 / 2) * 2 ^ k)]\<rparr>"

definition on_error ::
  "'w redcap_env \<Rightarrow> nat \<Rightarrow> alloc_error \<Rightarrow> 'w alloc_state \<Rightarrow> ctl \<times> 'w alloc_state" where
  "on_error env k e st =
     (case e of
        ApiError a \<Rightarrow>
          if is_unique_constraint_violation a then
            (case new_id st of
               None \<Rightarrow> (Raise UnboundLocalError, st)
             | Some n \<Rightarrow>
                 (Continue, if int k < int MAX_RETRIES - 1 then backoff_sleep env k st else st))
          else (Break, add_error st)
      | RangeExhausted \<Rightarrow> (Break, add_error st)
      | JSONDecodeError \<Rightarrow> (Break, add_error st)
      | UnboundLocalError \<Rightarrow> (Raise UnboundLocalError, st))"

text \<open>
  \<open>for attempt in range(MAX_RETRIES)\<close>, over the attempts still to make; the result is
  \<open>assignment_successful\<close>, or the exception that leaves \<open>process_records\<close>.
\<close>

fun retry_assign ::
  "'w redcap_env \<Rightarrow> string option \<Rightarrow> group_type \<Rightarrow> nat list \<Rightarrow> 'w alloc_state
   \<Rightarrow> (alloc_error + bool) \<times> 'w alloc_state" where
  "retry_assign env record_id g [] st = (Inr False, st)"
| "retry_assign env record_id g (k # rest) st =
     (case try_assign env record_id g (st\<lparr>attempt := Some k\<rparr>) of
        (Inr u, st1) \<Rightarrow> (Inr True, st1)
      | (Inl e, st1) \<Rightarrow>
          (case on_error env k e st1 of
             (Break, st2) \<Rightarrow> (Inr False, st2)
           | (Continue, st2) \<Rightarrow> retry_assign env record_id g rest st2
           | (Raise x, st2) \<Rightarrow> (Inl x, st2)))"

definition status_map :: "string \<Rightarrow> string" where
  \<comment> \<open>\<open>status_map.get(status, 'pending')\<close>\<close>
  "status_map status =
     (if status = ''INELIGIBLE'' then ''ineligible''
      else if status = ''REVIEW_REQUIRED'' then ''manual_review_required''
      else ''pending'')"

definition bump_not_eligible :: "'w alloc_state \<Rightarrow> 'w alloc_state" where
  "bump_not_eligible st =
     st\<lparr>counters := (counters st)\<lparr>not_eligible := not_eligible (counters st) + 1\<rparr>\<rparr>"

definition bump_review_required :: "'w alloc_state \<Rightarrow> 'w alloc_state" where
  "bump_review_required st =
     st\<lparr>counters := (counters st)\<lparr>review_required := review_required (counters st) + 1\<rparr>\<rparr>"

text \<open>\<open>for record in all_records\<close>, and the value \<open>process_records\<close> returns after it.\<close>

fun records_loop ::
  "'w redcap_env \<Rightarrow> redcap_record list \<Rightarrow> 'w alloc_state \<Rightarrow> (alloc_error + int) \<times> 'w alloc_state" where
  "records_loop env [] st = (Inr (processed (counters st)), st)"
| "records_loop env (r # rs) st =
     (let record_id = map_of r ''record_id'';
          status = fst (check_eligibility env r);
          reasons = snd (check_eligibility env r)
      in if status \<noteq> ''ELIGIBLE'' then
           (case import_records env
                   [[(''record_id'', record_id),
                     (''pipeline_processing_status'', Some (status_map status)),
                     (''pipeline_ineligibility_reasons'', Some (py_join '', '' reasons))]]
                   ''normal'' st of
              (Inr u, st1) \<Rightarrow>
                records_loop env rs
                  (if status = ''INELIGIBLE'' then bump_not_eligible st1
                   else bump_review_required st1)
            | (Inl (ApiError a), st1) \<Rightarrow> records_loop env rs (add_error st1)
            | (Inl e, st1) \<Rightarrow> (Inl e, st1))
         else
           (let qids_score_str = py_strip (record_get r ''qids_score_screening_42b0d5_v2_1d2371'')
            in if qids_score_str = [] then records_loop env rs st
               else
                 (case py_int qids_score_str of
                    None \<Rightarrow> records_loop env rs (add_error st)
                  | Some qids_score \<Rightarrow>
                      (case determine_group qids_score of
                         None \<Rightarrow> records_loop env rs (bump_not_eligible st)
                       | Some (g, group_label) \<Rightarrow>
                           (case retry_assign env record_id g [0..<MAX_RETRIES] st of
                              (Inl e, st1) \<Rightarrow> (Inl e, st1)
                            | (Inr True, st1) \<Rightarrow> records_loop env rs st1
                            | (Inr False, st1) \<Rightarrow>
                                (case attempt st1 of
                                   None \<Rightarrow> (Inl UnboundLocalError, st1)
                                 | Some k \<Rightarrow>
                                     records_loop env rs
                                       (if int k = int MAX_RETRIES - 1 then add_error st1
                                        else st1)))))))"

definition fields_to_fetch :: "string list" where
  "fields_to_fetch =
     [''record_id'',
      ''agree_participate_2950df_d76555_d11eb3_v2_2c0e90'',
      ''assigned_study_id_a690e9'',
      ''pipeline_processing_status'',
      ''pipeline_ineligibility_reasons'',
      ''qids_score_screening_42b0d5_v2_1d2371'',
      ''participant_email_a29017_723fd8_6c173d_v2_98aab5'',
      ''age_c4982e_ee0b48_0fa205_v2_fdabe5'',
      ''travel_e4c69a_ec4b4a_09fbe2_v2_1b9f19'',
      ''english_5c066f_a95c48_a35a95_v2_f6426d'',
      ''tms_contra_d3aef1_4917df_ffe8d8_v2_3ff65f'']"

definition quoted :: "string \<Rightarrow> string" where
  \<comment> \<open>a string between single quotes\<close>
  "quoted s = [CHR 0x27] @ s @ [CHR 0x27]"

definition filter_logic :: string where
  "filter_logic =
     ''([pipeline_processing_status] = '' @ quoted [] @
     '' or [pipeline_processing_status] = '' @ quoted ''pending'' @ '') and '' @
     ''[assigned_study_id_a690e9] = '' @ quoted [] @ '' and '' @
     ''[agree_participate_2950df_d76555_d11eb3_v2_2c0e90] = '' @ quoted ''1''"

definition no_stats :: stats where
  "no_stats = \<lparr> processed = 0, assigned_healthy = 0, assigned_mdd = 0, not_eligible = 0,
       review_required = 0, skipped = 0, errors = 0 \<rparr>"

definition process_records ::
  "'w redcap_env \<Rightarrow> bool \<Rightarrow> 'w alloc_state \<Rightarrow> (alloc_error + int) \<times> 'w alloc_state" where
  \<comment> \<open>the counters and the local variables start afresh with each call\<close>
  "process_records env retroactive st =
     (case export_records env fields_to_fetch
             (if retroactive then None else Some filter_logic)
             (st\<lparr>counters := no_stats, new_id := None, attempt := None\<rparr>) of
        (Inl (ApiError a), st1) \<Rightarrow> (Inr 0, st1)
      | (Inl e, st1) \<Rightarrow> (Inl e, st1)
      | (Inr all_records, st1) \<Rightarrow> records_loop env all_records st1)"

text \<open>
  The next identifier in the spec's words: the assigned identifiers that parse as integers
  and lie in the range; one more than their maximum, the range's minimum when there is none,
  and the range-exhausted error when the maximum is the range's maximum.
\<close>

definition assigned_in_range :: "id_range \<Rightarrow> redcap_record list \<Rightarrow> int set" where
  "assigned_in_range rng records =
     {v. \<exists>r \<in> set records.
           py_int (py_strip (record_get r ''assigned_study_id_a690e9'')) = Some v \<and>
           range_min rng \<le> v \<and> v \<le> range_max rng}"

definition next_id_spec :: "id_range \<Rightarrow> redcap_record list \<Rightarrow> alloc_error + int" where
  "next_id_spec rng records =
     (if assigned_in_range rng records = {} then Inr (range_min rng)
      else if Max (assigned_in_range rng records) < range_max rng
      then Inr (Max (assigned_in_range rng records) + 1)
      else Inl RangeExhausted)"

text \<open>The request \<open>get_next_dynamic_id\<close> posts.\<close>

definition export_ids :: request where
  "export_ids = ExportRecords [''record_id'', ''assigned_study_id_a690e9''] None"

text \<open>
  A repository for concrete runs: its world is the list of the replies it will give, in
  order, and the texts that are valid JSON are listed with what they decode to.
\<close>

definition scripted_repo ::
  "(string \<times> redcap_record list) list \<Rightarrow> (http_reply list) redcap_env" where
  "scripted_repo decoded =
     \<lparr> session_post = (\<lambda>req w. case w of [] \<Rightarrow> (RequestException, []) | x # xs \<Rightarrow> (x, xs)),
       json_loads = map_of decoded,
       concurrency_detection_list = default_detection_strings,
       check_eligibility = (\<lambda>r. (''ELIGIBLE'', [])),
       sleep = (\<lambda>d w. w) \<rparr>"

definition fresh_state :: "'w \<Rightarrow> 'w alloc_state" where
  "fresh_state w = \<lparr> repo = w, trace = [], counters = no_stats, new_id = None, attempt = None \<rparr>"

definition scenario_A :: "redcap_record list" where
  "scenario_A =
     [[(''record_id'', ''1''), (''assigned_study_id_a690e9'', ''3000'')],
      [(''record_id'', ''2''), (''assigned_study_id_a690e9'', ''3001'')],
      [(''record_id'', ''3''), (''assigned_study_id_a690e9'', '' 3005 '')],
      [(''record_id'', ''4''), (''assigned_study_id_a690e9'', [])],
      [(''record_id'', ''5''), (''assigned_study_id_a690e9'', ''10200'')],
      [(''record_id'', ''6''), (''assigned_study_id_a690e9'', ''n/a'')],
      [(''record_id'', ''7'')]]"

definition scenario_E :: "redcap_record list" where
  "scenario_E =
     [[(''record_id'', ''1''), (''assigned_study_id_a690e9'', ''3000'')],
      [(''record_id'', ''2''), (''assigned_study_id_a690e9'', ''10199'')]]"

text \<open>
  Two runs of the retry loop for one record. In the first the write with the flag is refused
  because the field is missing and the write without it collides, after which the records
  are read again with 3006 taken. In the second the write without the flag succeeds.
\<close>

definition scenario_B :: "redcap_record list" where
  "scenario_B = scenario_A @ [[(''record_id'', ''8''), (''assigned_study_id_a690e9'', ''3006'')]]"

definition collision_repo :: "(http_reply list) redcap_env" where
  "collision_repo =
     scripted_repo [(''records'', scenario_A), (''records2'', scenario_B), (''count'', [])]"

definition collision_script :: "http_reply list" where
  "collision_script =
     [HttpResponse 200 ''records'',
      HttpResponse 400 ''ERROR: id_assigned is not a valid field'',
      HttpResponse 409 ''Duplicate value for assigned_study_id'',
      HttpResponse 200 ''records2'',
      HttpResponse 200 ''count'']"

definition fallback_script :: "http_reply list" where
  "fallback_script =
     [HttpResponse 200 ''records'',
      HttpResponse 400 ''ERROR: id_assigned is not a valid field'',
      HttpResponse 200 ''count'']"

text \<open>The request by which \<open>process_records\<close> fetches its batch.\<close>

definition fetch_request :: "bool \<Rightarrow> request" where
  "fetch_request retroactive =
     ExportRecords fields_to_fetch (if retroactive then None else Some filter_logic)"

section \<open>Properties of the classifier\<close>

lemma py_contains_iff: "py_contains s sub \<longleftrightarrow> (\<exists>p t. s = p @ sub @ t)"
proof (induction s)
  case Nil
  then show ?case by auto
next
  case (Cons c cs)
  show ?case
  proof
    assume "py_contains (c # cs) sub"
    then consider "prefix sub (c # cs)" | "py_contains cs sub" by auto
    then show "\<exists>p t. c # cs = p @ sub @ t"
    proof cases
      case 1
      then obtain t where "c # cs = sub @ t" by (auto simp: prefix_def)
      then have "c # cs = [] @ sub @ t" by simp
      then show ?thesis by blast
    next
      case 2
      with Cons.IH obtain p t where "cs = p @ sub @ t" by blast
      then have "c # cs = (c # p) @ sub @ t" by simp
      then show ?thesis by blast
    qed
  next
    assume "\<exists>p t. c # cs = p @ sub @ t"
    then obtain p t where eq: "c # cs = p @ sub @ t" by blast
    show "py_contains (c # cs) sub"
    proof (cases p)
      case Nil
      with eq have "prefix sub (c # cs)" by (simp add: prefix_def)
      then show ?thesis by simp
    next
      case (Cons a p')
      with eq have "cs = p' @ sub @ t" by simp
      with Cons.IH have "py_contains cs sub" by blast
      then show ?thesis by simp
    qed
  qed
qed

lemma match_detection_iff:
  "match_detection ds bl \<longleftrightarrow> (\<exists>d \<in> set ds. py_contains bl (py_lower d))"
  by (induction ds) auto

text \<open>
  C5. \<open>is_unique_constraint_violation\<close> is true exactly when the status code is one of
  400, 409, 422 and the response body is present, non-empty and contains, ignoring case, one
  of the error's detection strings; it is false for an error without a status code and for
  one without a body; and an error built without detection strings carries the three
  defaults.
\<close>

theorem is_unique_constraint_violation_iff:
  "(is_unique_constraint_violation e \<longleftrightarrow> is_collision_spec e) \<and>
   (status_code e = None \<longrightarrow> \<not> is_unique_constraint_violation e) \<and>
   (response_body e = None \<longrightarrow> \<not> is_unique_constraint_violation e) \<and>
   detection_strings (RedcapApiError_init sc rb None) =
     [''unique constraint'', ''duplicate'', ''already exists'']"
proof -
  have "is_unique_constraint_violation e \<longleftrightarrow> is_collision_spec e"
    by (auto simp: is_unique_constraint_violation_def is_collision_spec_def
          contains_ignoring_case_def match_detection_iff py_contains_iff
          split: option.splits)
  moreover have "status_code e = None \<longrightarrow> \<not> is_unique_constraint_violation e"
    by (simp add: is_unique_constraint_violation_def)
  moreover have "response_body e = None \<longrightarrow> \<not> is_unique_constraint_violation e"
    by (auto simp: is_unique_constraint_violation_def split: option.splits)
  moreover have "detection_strings (RedcapApiError_init sc rb None) =
     [''unique constraint'', ''duplicate'', ''already exists'']"
    by (simp add: RedcapApiError_init_def default_detection_strings_def)
  ultimately show ?thesis by blast
qed

theorem is_unique_constraint_violation_iff_witness:
  "is_unique_constraint_violation
     (RedcapApiError_init (Some 409) (Some ''Duplicate value'') None) \<and>
   is_collision_spec
     (RedcapApiError_init (Some 409) (Some ''Duplicate value'') None) \<and>
   \<not> is_collision_spec (RedcapApiError_init None None None) \<and>
   \<not> is_collision_spec
     (RedcapApiError_init (Some 403) (Some ''duplicate'') None)"
proof -
  let ?e = "RedcapApiError_init (Some 409) (Some ''Duplicate value'') None"
  let ?n = "RedcapApiError_init None None None"
  let ?f = "RedcapApiError_init (Some 403) (Some ''duplicate'') None"
  have e: "is_unique_constraint_violation ?e"
    by (simp add: is_unique_constraint_violation_def RedcapApiError_init_def
          default_detection_strings_def py_lower_def lower_char_def is_upper_def)
  have n: "status_code ?n = None"
    by (simp add: RedcapApiError_init_def)
  have f: "\<not> is_unique_constraint_violation ?f"
    by (simp add: is_unique_constraint_violation_def RedcapApiError_init_def)
  from e n f
    is_unique_constraint_violation_iff [of ?e None None]
    is_unique_constraint_violation_iff [of ?n None None]
    is_unique_constraint_violation_iff [of ?f None None]
  show ?thesis by blast
qed

section \<open>Properties of the rate limiter\<close>

lemma evict_length: "length (evict b cs) \<le> length cs"
  by (induction cs) auto

lemma acquire_max_calls: "max_calls (snd (acquire t rl)) = max_calls rl"
  by (simp add: acquire_def Let_def split: list.splits)

lemma acquire_time_window: "time_window (snd (acquire t rl)) = time_window rl"
  by (simp add: acquire_def Let_def split: list.splits)

lemma acquire_length:
  assumes "int (length (calls rl)) \<le> max_calls rl"
  shows "int (length (calls (snd (acquire t rl)))) \<le> max_calls rl"
proof -
  have "length (evict (t - real_of_int (time_window rl)) (calls rl)) \<le> length (calls rl)"
    by (rule evict_length)
  with assms show ?thesis
    by (auto simp: acquire_def Let_def split: list.splits)
qed

lemma acquire_all_inv:
  "int (length (calls rl)) \<le> max_calls rl \<Longrightarrow>
   int (length (calls (acquire_all ts rl))) \<le> max_calls rl \<and>
   max_calls (acquire_all ts rl) = max_calls rl \<and>
   time_window (acquire_all ts rl) = time_window rl"
proof (induction ts arbitrary: rl)
  case Nil
  then show ?case by simp
next
  case (Cons t ts)
  have "int (length (calls (snd (acquire t rl)))) \<le> max_calls (snd (acquire t rl))"
    using acquire_length [OF Cons.prems] by (simp add: acquire_max_calls)
  from Cons.IH [OF this] show ?case
    by (simp add: acquire_max_calls acquire_time_window)
qed

lemma acquire_refused:
  assumes cap: "max_calls rl \<le> int (length (evict (now - real_of_int (time_window rl)) (calls rl)))"
      and pos: "1 \<le> max_calls rl"
  shows "\<exists>oldest rest. evict (now - real_of_int (time_window rl)) (calls rl) = oldest # rest \<and>
           acquire now rl =
             (Inr (Wait (oldest + real_of_int (time_window rl) - now)), rl\<lparr>calls := oldest # rest\<rparr>)"
proof (cases "evict (now - real_of_int (time_window rl)) (calls rl)")
  case Nil
  with cap pos show ?thesis by simp
next
  case (Cons a list)
  with cap show ?thesis by (simp add: acquire_def Let_def)
qed

lemma acquire_after_wait:
  assumes len: "int (length (oldest # rest)) \<le> max_calls rl"
      and cs: "calls rl = oldest # rest"
      and late: "oldest + real_of_int (time_window rl) \<le> now2"
  shows "fst (acquire now2 rl) = Inr Admitted"
proof -
  have "evict (now2 - real_of_int (time_window rl)) (calls rl) =
        evict (now2 - real_of_int (time_window rl)) rest"
    using cs late by simp
  moreover have "length (evict (now2 - real_of_int (time_window rl)) rest) \<le> length rest"
    by (rule evict_length)
  ultimately have "int (length (evict (now2 - real_of_int (time_window rl)) (calls rl))) < max_calls rl"
    using len by simp
  then show ?thesis by (simp add: acquire_def Let_def)
qed

text \<open>
  C7. For a limiter with capacity at least 1, after any history of calls: at any observation
  instant at most \<open>capacity\<close> recorded timestamps lie within the window; a call that
  arrives at capacity is not recorded and gets the wait \<open>oldest + window - now\<close>; and
  the next call, made after sleeping exactly that long, is admitted.
\<close>

theorem rate_limiter_bounded:
  assumes c: "1 \<le> c" and rl: "rl = acquire_all ts (RateLimiter_init c w)"
  shows "int (length (filter (\<lambda>t. obs - real_of_int w < t) (calls rl))) \<le> c \<and>
         (\<forall>now. c \<le> int (length (evict (now - real_of_int w) (calls rl))) \<longrightarrow>
            (\<exists>oldest rest rl'.
               evict (now - real_of_int w) (calls rl) = oldest # rest \<and>
               acquire now rl = (Inr (Wait (oldest + real_of_int w - now)), rl') \<and>
               calls rl' = oldest # rest \<and>
               fst (acquire (now + (oldest + real_of_int w - now)) rl') = Inr Admitted))"
proof -
  have init: "int (length (calls (RateLimiter_init c w))) \<le> max_calls (RateLimiter_init c w)"
    using c by (simp add: RateLimiter_init_def)
  from acquire_all_inv [OF init, of ts]
  have len: "int (length (calls rl)) \<le> c" and mc: "max_calls rl = c" and tw: "time_window rl = w"
    by (simp_all add: rl RateLimiter_init_def)
  have "length (filter (\<lambda>t. obs - real_of_int w < t) (calls rl)) \<le> length (calls rl)"
    by (rule length_filter_le)
  with len have first: "int (length (filter (\<lambda>t. obs - real_of_int w < t) (calls rl))) \<le> c"
    by linarith
  have second: "\<exists>oldest rest rl'.
               evict (now - real_of_int w) (calls rl) = oldest # rest \<and>
               acquire now rl = (Inr (Wait (oldest + real_of_int w - now)), rl') \<and>
               calls rl' = oldest # rest \<and>
               fst (acquire (now + (oldest + real_of_int w - now)) rl') = Inr Admitted"
    if cap: "c \<le> int (length (evict (now - real_of_int w) (calls rl)))" for now
  proof -
    from acquire_refused [of rl now] cap c mc tw
    obtain oldest rest where ev: "evict (now - real_of_int w) (calls rl) = oldest # rest"
      and acq: "acquire now rl = (Inr (Wait (oldest + real_of_int w - now)), rl\<lparr>calls := oldest # rest\<rparr>)"
      by auto
    let ?rl' = "rl\<lparr>calls := oldest # rest\<rparr>"
    have "length (evict (now - real_of_int w) (calls rl)) \<le> length (calls rl)"
      by (rule evict_length)
    with ev len have l': "int (length (oldest # rest)) \<le> max_calls ?rl'"
      by (simp add: mc)
    have "fst (acquire (now + (oldest + real_of_int w - now)) ?rl') = Inr Admitted"
      by (rule acquire_after_wait [OF l']) (simp_all add: tw)
    with ev acq show ?thesis by auto
  qed
  from first second show ?thesis by blast
qed

theorem rate_limiter_bounded_witness:
  "fst (acquire 1 (acquire_all [0, 1/2] (RateLimiter_init 2 60))) = Inr (Wait 59) \<and>
   calls (snd (acquire 1 (acquire_all [0, 1/2] (RateLimiter_init 2 60)))) = [0, 1/2] \<and>
   fst (acquire (1 + 59) (snd (acquire 1 (acquire_all [0, 1/2] (RateLimiter_init 2 60))))) =
     Inr Admitted"
proof -
  let ?rl = "acquire_all [0, 1/2] (RateLimiter_init 2 60)"
  have h1: "(1::int) \<le> 2" by simp
  have ev: "evict (1 - real_of_int 60) (calls ?rl) = [0, 1/2]"
    by (simp add: acquire_def RateLimiter_init_def Let_def)
  have cap: "2 \<le> int (length (evict (1 - real_of_int 60) (calls ?rl)))"
    unfolding ev by simp
  from rate_limiter_bounded [where c = 2 and ts = "[0, 1/2]" and w = 60 and obs = 1, OF h1 refl] cap
  obtain oldest rest rl' where
    "evict (1 - real_of_int 60) (calls ?rl) = oldest # rest"
    "acquire 1 ?rl = (Inr (Wait (oldest + real_of_int 60 - 1)), rl')"
    "calls rl' = oldest # rest"
    "fst (acquire (1 + (oldest + real_of_int 60 - 1)) rl') = Inr Admitted"
    by blast
  with ev show ?thesis by simp
qed

section \<open>Properties of the circuit breaker\<close>

lemma breaker_run_append: "breaker_run (xs @ ys) cb = breaker_run ys (breaker_run xs cb)"
  by (induction xs cb rule: breaker_run.induct) auto

lemma breaker_step_inv:
  "failure_threshold (record_success cb) = failure_threshold cb"
  "recovery_timeout (record_success cb) = recovery_timeout cb"
  "0 \<le> failure_count (record_success cb)"
  "failure_threshold (record_failure t cb) = failure_threshold cb"
  "recovery_timeout (record_failure t cb) = recovery_timeout cb"
  "failure_count (record_failure t cb) = failure_count cb + 1"
  "last_failure_time (record_failure t cb) = Some t"
  "failure_threshold (snd (can_attempt t cb)) = failure_threshold cb"
  "recovery_timeout (snd (can_attempt t cb)) = recovery_timeout cb"
  "failure_count (snd (can_attempt t cb)) = failure_count cb"
  by (simp_all add: record_success_def record_failure_def can_attempt_def Let_def
        split: option.splits)

lemma breaker_run_inv:
  "0 \<le> failure_count cb \<Longrightarrow>
   0 \<le> failure_count (breaker_run ops cb) \<and>
   failure_threshold (breaker_run ops cb) = failure_threshold cb \<and>
   recovery_timeout (breaker_run ops cb) = recovery_timeout cb"
proof (induction ops cb rule: breaker_run.induct)
  case (1 cb)
  then show ?case by simp
next
  case (2 ops cb)
  then show ?case by (simp add: breaker_step_inv)
next
  case (3 t ops cb)
  then show ?case by (simp add: breaker_step_inv)
next
  case (4 t ops cb)
  then show ?case by (simp add: breaker_step_inv)
qed

lemma failures_count:
  "failure_count (breaker_run (map Failure ts) cb) = failure_count cb + int (length ts) \<and>
   failure_threshold (breaker_run (map Failure ts) cb) = failure_threshold cb \<and>
   recovery_timeout (breaker_run (map Failure ts) cb) = recovery_timeout cb"
  by (induction ts arbitrary: cb) (simp_all add: breaker_step_inv)

lemma failures_open:
  assumes "ts \<noteq> []" and "failure_threshold cb \<le> failure_count cb + int (length ts)"
  shows "state (breaker_run (map Failure ts) cb) = OPEN \<and>
         last_failure_time (breaker_run (map Failure ts) cb) = Some (last ts)"
proof -
  from assms(1) obtain us u where ts: "ts = us @ [u]"
    by (metis rev_exhaust)
  let ?mid = "breaker_run (map Failure us) cb"
  have run: "breaker_run (map Failure ts) cb = record_failure u ?mid"
    by (simp add: ts breaker_run_append)
  have "failure_threshold ?mid \<le> failure_count ?mid + 1"
    using assms(2) failures_count [of us cb] by (simp add: ts)
  moreover have "last ts = u" by (simp add: ts)
  ultimately show ?thesis
    unfolding run by (simp add: record_failure_def Let_def)
qed

lemma can_attempt_open_early:
  assumes "state cb = OPEN" and "last_failure_time cb = Some lft"
      and "now - lft \<le> real_of_int (recovery_timeout cb)"
  shows "can_attempt now cb = (False, cb)"
  using assms by (simp add: can_attempt_def)

lemma can_attempt_all_open_early:
  assumes "state cb = OPEN" and "last_failure_time cb = Some lft"
      and "\<forall>n \<in> set ns. n - lft \<le> real_of_int (recovery_timeout cb)"
  shows "can_attempt_all ns cb = (replicate (length ns) False, cb)"
  using assms by (induction ns) (simp_all add: can_attempt_open_early)

lemma can_attempt_open_late:
  assumes "state cb = OPEN" and "last_failure_time cb = Some lft" and "lft \<noteq> 0"
      and "now - lft > real_of_int (recovery_timeout cb)"
  shows "can_attempt now cb = (True, cb\<lparr>state := HALF_OPEN\<rparr>)"
  using assms by (simp add: can_attempt_def)

text \<open>
  C6. After \<open>failure_threshold\<close> consecutive calls of \<open>record_failure\<close>, whatever
  happened to the breaker before, it is \<open>OPEN\<close>; every call of \<open>can_attempt\<close> made
  while \<open>now - last_failure_time \<le> recovery_timeout\<close> answers \<open>False\<close> and leaves the
  breaker as it is, however many such calls are made; the first call after the timeout
  (the failure time being a clock reading other than 0) answers \<open>True\<close> and leaves the
  breaker \<open>HALF_OPEN\<close>. The defaults are 5 failures and 60 seconds.
\<close>

theorem breaker_open_until_timeout:
  assumes ft: "1 \<le> ft"
      and cb: "cb = breaker_run (ops @ map Failure ts) (CircuitBreaker_init ft rt st)"
      and n: "length ts = nat ft"
  shows "state cb = OPEN \<and> last_failure_time cb = Some (last ts) \<and>
         (\<forall>ns. (\<forall>n \<in> set ns. n - last ts \<le> real_of_int rt) \<longrightarrow>
            can_attempt_all ns cb = (replicate (length ns) False, cb) \<and>
            (\<forall>now. real_of_int rt < now - last ts \<and> last ts \<noteq> 0 \<longrightarrow>
               can_attempt now (snd (can_attempt_all ns cb)) = (True, cb\<lparr>state := HALF_OPEN\<rparr>))) \<and>
         failure_threshold CircuitBreaker_default = 5 \<and>
         recovery_timeout CircuitBreaker_default = 60"
proof -
  let ?pre = "breaker_run ops (CircuitBreaker_init ft rt st)"
  have pre: "0 \<le> failure_count ?pre \<and> failure_threshold ?pre = ft \<and> recovery_timeout ?pre = rt"
    using breaker_run_inv [of "CircuitBreaker_init ft rt st" ops]
    by (simp add: CircuitBreaker_init_def)
  have run: "cb = breaker_run (map Failure ts) ?pre"
    by (simp add: cb breaker_run_append)
  have ne: "ts \<noteq> []" using ft n by auto
  have "failure_threshold ?pre \<le> failure_count ?pre + int (length ts)"
    using pre ft n by simp
  from failures_open [OF ne this]
  have op: "state cb = OPEN" and lft: "last_failure_time cb = Some (last ts)"
    by (simp_all add: run)
  have rt: "recovery_timeout cb = rt"
    using failures_count [of ts ?pre] pre by (simp add: run)
  have early: "can_attempt_all ns cb = (replicate (length ns) False, cb)"
    if "\<forall>n \<in> set ns. n - last ts \<le> real_of_int rt" for ns
    using can_attempt_all_open_early [OF op lft] that by (simp add: rt)
  have late: "can_attempt now cb = (True, cb\<lparr>state := HALF_OPEN\<rparr>)"
    if "real_of_int rt < now - last ts" and "last ts \<noteq> 0" for now
    using can_attempt_open_late [OF op lft] that by (simp add: rt)
  have dflt: "failure_threshold CircuitBreaker_default = 5 \<and>
         recovery_timeout CircuitBreaker_default = 60"
    by (simp add: CircuitBreaker_default_def CircuitBreaker_init_def)
  from op lft early late dflt show ?thesis by simp
qed

theorem breaker_open_until_timeout_witness:
  "state (breaker_run (map Failure [100, 101, 102, 103, 104]) (CircuitBreaker_init 5 60 2)) = OPEN \<and>
   fst (can_attempt_all [110, 150, 164]
     (breaker_run (map Failure [100, 101, 102, 103, 104]) (CircuitBreaker_init 5 60 2))) =
     [False, False, False] \<and>
   fst (can_attempt 165
     (breaker_run (map Failure [100, 101, 102, 103, 104]) (CircuitBreaker_init 5 60 2))) = True"
proof -
  let ?ts = "[100, 101, 102, 103, 104] :: real list"
  let ?cb = "breaker_run (map Failure ?ts) (CircuitBreaker_init 5 60 2)"
  have h1: "(1::int) \<le> 5" by simp
  have h2: "?cb = breaker_run ([] @ map Failure ?ts) (CircuitBreaker_init 5 60 2)" by simp
  have h3: "length ?ts = nat 5" by simp
  note t = breaker_open_until_timeout [OF h1 h2 h3]
  have a: "\<forall>n \<in> set [110, 150, 164 :: real]. n - last ?ts \<le> real_of_int 60" by simp
  have b: "real_of_int 60 < 165 - last ?ts \<and> last ?ts \<noteq> 0" by simp
  from t a have c: "can_attempt_all [110, 150, 164] ?cb = (replicate (length [110, 150, 164 :: real]) False, ?cb)"
    by blast
  from t a b have d: "can_attempt 165 (snd (can_attempt_all [110, 150, 164] ?cb)) = (True, ?cb\<lparr>state := HALF_OPEN\<rparr>)"
    by blast
  from t have e: "state ?cb = OPEN" by blast
  from c d e show ?thesis by simp
qed

section \<open>Properties of the provider order\<close>

lemma insort_key_skip:
  "\<forall>a \<in> set A. f a < f x \<Longrightarrow> insort_key f x (A @ R) = A @ insort_key f x R"
  by (induction A) auto

lemma insort_key_front:
  "\<forall>y \<in> set R. f x \<le> f y \<Longrightarrow> insort_key f x R = x # R"
  by (cases R) auto

lemma sort_key_three:
  fixes f :: "'a \<Rightarrow> nat"
  assumes "\<forall>x. f x \<le> 2"
  shows "sort_key f xs =
           filter (\<lambda>x. f x = 0) xs @ filter (\<lambda>x. f x = 1) xs @ filter (\<lambda>x. f x = 2) xs"
proof (induction xs)
  case Nil
  then show ?case by simp
next
  case (Cons x xs)
  let ?A = "filter (\<lambda>x. f x = 0) xs" and ?B = "filter (\<lambda>x. f x = 1) xs"
  and ?C = "filter (\<lambda>x. f x = 2) xs"
  have step: "sort_key f (x # xs) = insort_key f x (?A @ ?B @ ?C)"
    using Cons.IH by simp
  from assms have "f x \<le> 2" by simp
  then consider (zero) "f x = 0" | (one) "f x = 1" | (two) "f x = 2" by linarith
  then show ?case
  proof cases
    case zero
    then have "insort_key f x (?A @ ?B @ ?C) = x # (?A @ ?B @ ?C)"
      by (intro insort_key_front) simp
    with zero step show ?thesis by simp
  next
    case one
    have "insort_key f x (?A @ ?B @ ?C) = ?A @ insort_key f x (?B @ ?C)"
      using one by (intro insort_key_skip) simp
    also have "insort_key f x (?B @ ?C) = x # (?B @ ?C)"
      using one by (intro insort_key_front) auto
    finally show ?thesis using one step by simp
  next
    case two
    have "\<forall>a \<in> set (?A @ ?B). f a < f x"
      using two by auto
    then have "insort_key f x ((?A @ ?B) @ ?C) = (?A @ ?B) @ insort_key f x ?C"
      by (rule insort_key_skip)
    then have "insort_key f x (?A @ ?B @ ?C) = (?A @ ?B) @ insort_key f x ?C"
      by simp
    also have "insort_key f x ?C = x # ?C"
      using two by (intro insort_key_front) auto
    finally show ?thesis using two step by simp
  qed
qed

text \<open>
  C8 (as amended). For every recipient the providers named \<open>sendgrid\<close> come first, in
  their configured order. For an in-domain recipient (address ending in
  \<open>@stanford.edu\<close>, ignoring case) \<open>stanford_smtp\<close> follows and the other relays come
  last; for an out-of-domain recipient the other relays follow and \<open>stanford_smtp\<close> comes
  last.
\<close>

theorem provider_order_sendgrid_first:
  "provider_order name addr ps =
     (if is_stanford_recipient addr
      then filter (\<lambda>p. name p = ''sendgrid'') ps @
           filter (\<lambda>p. name p = ''stanford_smtp'') ps @
           filter (\<lambda>p. name p \<noteq> ''sendgrid'' \<and> name p \<noteq> ''stanford_smtp'') ps
      else filter (\<lambda>p. name p = ''sendgrid'') ps @
           filter (\<lambda>p. name p \<noteq> ''sendgrid'' \<and> name p \<noteq> ''stanford_smtp'') ps @
           filter (\<lambda>p. name p = ''stanford_smtp'') ps)"
proof -
  have s: "(\<lambda>p. priority_stanford (name p) = 0) = (\<lambda>p. name p = ''sendgrid'')"
          "(\<lambda>p. priority_stanford (name p) = 1) = (\<lambda>p. name p = ''stanford_smtp'')"
          "(\<lambda>p. priority_stanford (name p) = 2) =
             (\<lambda>p. name p \<noteq> ''sendgrid'' \<and> name p \<noteq> ''stanford_smtp'')"
    by (auto simp: priority_stanford_def fun_eq_iff)
  have e: "(\<lambda>p. priority_external (name p) = 0) = (\<lambda>p. name p = ''sendgrid'')"
          "(\<lambda>p. priority_external (name p) = 2) = (\<lambda>p. name p = ''stanford_smtp'')"
          "(\<lambda>p. priority_external (name p) = 1) =
             (\<lambda>p. name p \<noteq> ''sendgrid'' \<and> name p \<noteq> ''stanford_smtp'')"
    by (auto simp: priority_external_def fun_eq_iff)
  have bs: "\<forall>p. priority_stanford (name p) \<le> 2"
    by (simp add: priority_stanford_def)
  have be: "\<forall>p. priority_external (name p) \<le> 2"
    by (simp add: priority_external_def)
  have "sort_key (\<lambda>p. priority_stanford (name p)) ps =
          filter (\<lambda>p. name p = ''sendgrid'') ps @
           filter (\<lambda>p. name p = ''stanford_smtp'') ps @
           filter (\<lambda>p. name p \<noteq> ''sendgrid'' \<and> name p \<noteq> ''stanford_smtp'') ps"
    using sort_key_three [OF bs, of ps] by (simp only: s)
  moreover have "sort_key (\<lambda>p. priority_external (name p)) ps =
          filter (\<lambda>p. name p = ''sendgrid'') ps @
           filter (\<lambda>p. name p \<noteq> ''sendgrid'' \<and> name p \<noteq> ''stanford_smtp'') ps @
           filter (\<lambda>p. name p = ''stanford_smtp'') ps"
    using sort_key_three [OF be, of ps] by (simp only: e)
  ultimately show ?thesis by (simp add: provider_order_def)
qed

lemma external_recipient: "\<not> is_stanford_recipient ''pat@gmail.com''"
  by (simp add: is_stanford_recipient_def py_endswith_def py_lower_def lower_char_def is_upper_def)
lemma stanford_recipient: "is_stanford_recipient ''Pat@Stanford.EDU''"
  by (simp add: is_stanford_recipient_def py_endswith_def py_lower_def lower_char_def is_upper_def)

text \<open>
  C8 as stated fails: for an out-of-domain recipient SendGrid is still ordered before the
  relays.
\<close>

theorem provider_order_external_counterexample:
  "\<not> is_stanford_recipient ''pat@gmail.com'' \<and>
   provider_order id ''pat@gmail.com'' [''stanford_smtp'', ''smtp_mail.example.org'', ''sendgrid''] =
     [''sendgrid'', ''smtp_mail.example.org'', ''stanford_smtp'']"
  by (simp add: provider_order_def priority_external_def is_stanford_recipient_def py_endswith_def py_lower_def lower_char_def is_upper_def)

theorem provider_order_sendgrid_first_witness:
  "provider_order id ''Pat@Stanford.EDU'' [''smtp_mail.example.org'', ''stanford_smtp'', ''sendgrid''] =
     [''sendgrid'', ''stanford_smtp'', ''smtp_mail.example.org''] \<and>
   provider_order id ''pat@gmail.com'' [''stanford_smtp'', ''sendgrid'', ''smtp_mail.example.org''] =
     [''sendgrid'', ''smtp_mail.example.org'', ''stanford_smtp'']"
  using external_recipient stanford_recipient provider_order_sendgrid_first [of id "''Pat@Stanford.EDU''" "[''smtp_mail.example.org'', ''stanford_smtp'', ''sendgrid'']"]
    provider_order_sendgrid_first [of id "''pat@gmail.com''" "[''stanford_smtp'', ''sendgrid'', ''smtp_mail.example.org'']"]
  by simp

section \<open>Properties of the multi-provider sender\<close>

lemma backoff_fields:
  "attempts_acc (backoff env k st) = attempts_acc st"
  "sent (backoff env k st) = sent st"
  "last_error (backoff env k st) = last_error st"
  "circuit_breakers (backoff env k st) = circuit_breakers st"
  "breaker_calls (backoff env k st) = breaker_calls st"
  by (simp_all add: backoff_def Let_def split: prod.splits)

lemma trail_inv_backoff: "trail_inv s0 (backoff env k st) = trail_inv s0 st"
  by (simp add: trail_inv_def backoff_fields)

lemma retry_loop_trail:
  assumes "trail_inv s0 st" and "retry_loop env mr p ed ks st = (res, st')"
  shows "case res of None \<Rightarrow> trail_inv s0 st'
         | Some out \<Rightarrow> delivered s0 {get_provider_name env p} out st'"
  using assms
proof (induction ks arbitrary: st)
  case Nil
  then show ?case by simp
next
  case (Cons k ks)
  let ?name = "get_provider_name env p"
  let ?rw = "provider_send env p ed (world st)"
  let ?st1 = "st\<lparr>world := snd ?rw, sent := sent st @ [(?name, fst ?rw)]\<rparr>"
  show ?case
  proof (cases "fst ?rw")
    case (Raised e)
    let ?st2 = "?st1\<lparr>last_error := Some e,
                   attempts_acc := attempts_acc ?st1 @ [ErrorAttempt ?name (k + 1) e]\<rparr>"
    have inv2: "trail_inv s0 ?st2"
      using Cons.prems(1) Raised by (simp add: trail_inv_def)
    then have inv3: "trail_inv s0 (if int k < mr - 1 then backoff env k ?st2 else ?st2)"
      by (simp add: trail_inv_backoff)
    have "retry_loop env mr p ed ks (if int k < mr - 1 then backoff env k ?st2 else ?st2) = (res, st')"
      using Cons.prems(2) Raised by (simp add: Let_def split: if_splits)
    from Cons.IH [OF inv3 this] show ?thesis .
  next
    case (Returned r)
    let ?st2 = "?st1\<lparr>attempts_acc := attempts_acc ?st1 @ [ResultAttempt ?name (k + 1) r]\<rparr>"
    show ?thesis
    proof (cases "r_success r")
      case True
      with Cons.prems(2) Returned
      have res: "res = Some \<lparr> success = r_success r,
                           provider = Some (case r_provider r of None \<Rightarrow> ?name | Some n \<Rightarrow> n),
                           error = r_error r,
                           attempts = attempts_acc ?st2,
                           guidance = r_guidance r,
                           status_code_of = r_status_code r \<rparr>"
        and st': "st' = ?st2\<lparr>circuit_breakers :=
                          (circuit_breakers ?st2)(?name := record_success (circuit_breakers ?st2 ?name)),
                        breaker_calls := breaker_calls ?st2 @ [(?name, Success)]\<rparr>"
        by (simp_all add: Let_def)
      let ?out = "\<lparr> success = r_success r,
                           provider = Some (case r_provider r of None \<Rightarrow> ?name | Some n \<Rightarrow> n),
                           error = r_error r,
                           attempts = attempts_acc ?st2,
                           guidance = r_guidance r,
                           status_code_of = r_status_code r \<rparr>"
      have "success ?out \<and>
            attempts ?out = attempts_acc st @ [ResultAttempt ?name (k + 1) r] \<and>
            r_success r \<and> ?name \<in> {?name} \<and>
            (\<forall>a \<in> set (attempts_acc st). \<not> attempt_ok a) \<and>
            sent st' = s0 @ map attempt_reply (attempts ?out) \<and>
            circuit_breakers st' =
              (circuit_breakers st)(?name := record_success (circuit_breakers st ?name))"
        using Cons.prems(1) True Returned by (simp add: trail_inv_def st')
      then have "delivered s0 {?name} ?out st'"
        unfolding delivered_def by blast
      then show ?thesis by (simp add: res)
    next
      case False
      let ?st3 = "?st2\<lparr>last_error :=
                     Some (case r_error r of None \<Rightarrow> ''Unknown error'' | Some e \<Rightarrow> e)\<rparr>"
      have inv3: "trail_inv s0 ?st3"
        using Cons.prems(1) Returned False by (simp add: trail_inv_def)
      show ?thesis
      proof (cases "r_retry r \<or> transient_status (r_status_code r)")
        case True
        have inv4: "trail_inv s0 (if int k < mr - 1 then backoff env k ?st3 else ?st3)"
          using inv3 by (simp add: trail_inv_backoff)
        have "retry_loop env mr p ed ks (if int k < mr - 1 then backoff env k ?st3 else ?st3) = (res, st')"
          using Cons.prems(2) Returned False True by (simp add: Let_def split: if_splits)
        from Cons.IH [OF inv4 this] show ?thesis .
      next
        case nt: False
        with Cons.prems(2) Returned False have "res = None" "st' = ?st3"
          by (simp_all add: Let_def)
        with inv3 show ?thesis by simp
      qed
    qed
  qed
qed

lemma trail_inv_update:
  "trail_inv s0 (st\<lparr>circuit_breakers := bs\<rparr>) = trail_inv s0 st"
  "trail_inv s0 (st\<lparr>world := w\<rparr>) = trail_inv s0 st"
  "trail_inv s0 (st\<lparr>breaker_calls := cs\<rparr>) = trail_inv s0 st"
  by (simp_all add: trail_inv_def)

lemma delivered_mono: "delivered s0 A out st \<Longrightarrow> A \<subseteq> B \<Longrightarrow> delivered s0 B out st"
  unfolding delivered_def by blast

lemma all_failed_not_success: "\<not> success (all_failed st)"
  by (simp add: all_failed_def)

lemma provider_loop_trail:
  assumes "trail_inv s0 st" and "provider_loop env mr ed ps st = (out, st')"
  shows "(success out \<longrightarrow> delivered s0 (get_provider_name env ` set ps) out st') \<and>
         (\<not> success out \<longrightarrow> trail_inv s0 st' \<and> out = all_failed st')"
  using assms
proof (induction ps arbitrary: st)
  case Nil
  then show ?case by (auto simp: all_failed_not_success)
next
  case (Cons p ps)
  let ?name = "get_provider_name env p"
  let ?ok_cb = "can_attempt (time_now env (world st)) (circuit_breakers st ?name)"
  let ?st1 = "st\<lparr>circuit_breakers := (circuit_breakers st)(?name := snd ?ok_cb),
                  breaker_calls :=
                    breaker_calls st @ [(?name, Attempt (time_now env (world st)))]\<rparr>"
  let ?hw = "is_healthy env p (world ?st1)"
  let ?st2 = "?st1\<lparr>world := snd ?hw\<rparr>"
  have inv1: "trail_inv s0 ?st1" and inv2: "trail_inv s0 ?st2"
    using Cons.prems(1) by (simp_all add: trail_inv_update)
  have weaken: "delivered s0 (get_provider_name env ` set (p # ps)) out st'"
    if "delivered s0 (get_provider_name env ` set ps) out st'"
    using that by (rule delivered_mono) auto
  show ?case
  proof (cases "fst ?ok_cb")
    case False
    with Cons.prems(2) have "provider_loop env mr ed ps ?st1 = (out, st')"
      by (simp add: Let_def)
    from Cons.IH [OF inv1 this] weaken show ?thesis by blast
  next
    case ok: True
    show ?thesis
    proof (cases "fst ?hw")
      case False
      with ok Cons.prems(2) have "provider_loop env mr ed ps ?st2 = (out, st')"
        by (simp add: Let_def)
      from Cons.IH [OF inv2 this] weaken show ?thesis by blast
    next
      case healthy: True
      obtain res st3 where rl: "retry_loop env mr p ed [0..<nat mr] ?st2 = (res, st3)"
        by (cases "retry_loop env mr p ed [0..<nat mr] ?st2") blast
      note post = retry_loop_trail [OF inv2 rl]
      show ?thesis
      proof (cases res)
        case (Some o1)
        with ok healthy rl Cons.prems(2) have eq: "out = o1" "st' = st3"
          by (simp_all add: Let_def)
        from post Some eq have d: "delivered s0 {?name} out st'" by simp
        then have "delivered s0 (get_provider_name env ` set (p # ps)) out st'"
          by (rule delivered_mono) simp
        moreover from d have "success out" by (simp add: delivered_def)
        ultimately show ?thesis by blast
      next
        case None
        let ?st4 = "st3\<lparr>circuit_breakers :=
                       (circuit_breakers st3)
                         (?name := record_failure (time_now env (world st3))
                                    (circuit_breakers st3 ?name)),
                     breaker_calls :=
                       breaker_calls st3 @ [(?name, Failure (time_now env (world st3)))]\<rparr>"
        from post None have "trail_inv s0 ?st4" by (simp add: trail_inv_update)
        moreover from None ok healthy rl Cons.prems(2)
        have "provider_loop env mr ed ps ?st4 = (out, st')"
          by (simp add: Let_def)
        ultimately show ?thesis using Cons.IH weaken by blast
      qed
    qed
  qed
qed

lemma replay_calls_append:
  "replay_calls (xs @ ys) bs = replay_calls ys (replay_calls xs bs)"
  by (induction xs bs rule: replay_calls.induct) (simp_all add: fun_upd_def)

lemma replay_calls_single:
  "replay_calls [(n, Success)] bs = bs(n := record_success (bs n))"
  "replay_calls [(n, Failure t)] bs = bs(n := record_failure t (bs n))"
  "replay_calls [(n, Attempt t)] bs = bs(n := snd (can_attempt t (bs n)))"
  by simp_all

lemma calls_inv_update:
  "calls_inv c0 b0 (st\<lparr>world := w\<rparr>) = calls_inv c0 b0 st"
  "calls_inv c0 b0 (st\<lparr>sent := s\<rparr>) = calls_inv c0 b0 st"
  "calls_inv c0 b0 (st\<lparr>last_error := le\<rparr>) = calls_inv c0 b0 st"
  "calls_inv c0 b0 (st\<lparr>attempts_acc := as\<rparr>) = calls_inv c0 b0 st"
  by (simp_all add: calls_inv_def)

lemma calls_inv_backoff: "calls_inv c0 b0 (backoff env k st) = calls_inv c0 b0 st"
  by (simp add: calls_inv_def backoff_fields)

lemma calls_inv_attempt:
  assumes "calls_inv c0 b0 st"
  shows "calls_inv c0 b0
           (st\<lparr>circuit_breakers := (circuit_breakers st)(n := snd (can_attempt t (circuit_breakers st n))),
               breaker_calls := breaker_calls st @ [(n, Attempt t)]\<rparr>)"
proof -
  from assms obtain ops where ops: "breaker_calls st = c0 @ ops"
    "\<forall>c \<in> set ops. snd c \<noteq> Success" "circuit_breakers st = replay_calls ops b0"
    unfolding calls_inv_def by blast
  have "replay_calls (ops @ [(n, Attempt t)]) b0 =
          (circuit_breakers st)(n := snd (can_attempt t (circuit_breakers st n)))"
    by (simp add: replay_calls_append ops(3))
  with ops show ?thesis
    unfolding calls_inv_def
    by (intro exI [of _ "ops @ [(n, Attempt t)]"]) simp
qed

lemma calls_inv_failure:
  assumes "calls_inv c0 b0 st"
  shows "calls_inv c0 b0
           (st\<lparr>circuit_breakers := (circuit_breakers st)(n := record_failure t (circuit_breakers st n)),
               breaker_calls := breaker_calls st @ [(n, Failure t)]\<rparr>)"
proof -
  from assms obtain ops where ops: "breaker_calls st = c0 @ ops"
    "\<forall>c \<in> set ops. snd c \<noteq> Success" "circuit_breakers st = replay_calls ops b0"
    unfolding calls_inv_def by blast
  have "replay_calls (ops @ [(n, Failure t)]) b0 =
          (circuit_breakers st)(n := record_failure t (circuit_breakers st n))"
    by (simp add: replay_calls_append ops(3))
  with ops show ?thesis
    unfolding calls_inv_def
    by (intro exI [of _ "ops @ [(n, Failure t)]"]) simp
qed

lemma retry_loop_calls:
  assumes "calls_inv c0 b0 st" and "retry_loop env mr p ed ks st = (res, st')"
  shows "case res of None \<Rightarrow> calls_inv c0 b0 st'
         | Some out \<Rightarrow> success_logged c0 b0 out st' \<and> success out"
  using assms
proof (induction ks arbitrary: st)
  case Nil
  then show ?case by simp
next
  case (Cons k ks)
  let ?name = "get_provider_name env p"
  let ?rw = "provider_send env p ed (world st)"
  let ?st1 = "st\<lparr>world := snd ?rw, sent := sent st @ [(?name, fst ?rw)]\<rparr>"
  show ?case
  proof (cases "fst ?rw")
    case (Raised e)
    let ?st2 = "?st1\<lparr>last_error := Some e,
                   attempts_acc := attempts_acc ?st1 @ [ErrorAttempt ?name (k + 1) e]\<rparr>"
    have "calls_inv c0 b0 ?st2"
      using Cons.prems(1) by (simp add: calls_inv_update)
    then have inv3: "calls_inv c0 b0 (if int k < mr - 1 then backoff env k ?st2 else ?st2)"
      by (simp add: calls_inv_backoff)
    have "retry_loop env mr p ed ks (if int k < mr - 1 then backoff env k ?st2 else ?st2) = (res, st')"
      using Cons.prems(2) Raised by (simp add: Let_def split: if_splits)
    from Cons.IH [OF inv3 this] show ?thesis .
  next
    case (Returned r)
    let ?st2 = "?st1\<lparr>attempts_acc := attempts_acc ?st1 @ [ResultAttempt ?name (k + 1) r]\<rparr>"
    show ?thesis
    proof (cases "r_success r")
      case True
      let ?out = "\<lparr> success = r_success r,
                           provider = Some (case r_provider r of None \<Rightarrow> ?name | Some n \<Rightarrow> n),
                           error = r_error r,
                           attempts = attempts_acc ?st2,
                           guidance = r_guidance r,
                           status_code_of = r_status_code r \<rparr>"
      from True Cons.prems(2) Returned
      have res: "res = Some ?out"
        and st': "st' = ?st2\<lparr>circuit_breakers :=
                          (circuit_breakers ?st2)(?name := record_success (circuit_breakers ?st2 ?name)),
                        breaker_calls := breaker_calls ?st2 @ [(?name, Success)]\<rparr>"
        by (simp_all add: Let_def)
      from Cons.prems(1) obtain ops where ops: "breaker_calls st = c0 @ ops"
        "\<forall>c \<in> set ops. snd c \<noteq> Success" "circuit_breakers st = replay_calls ops b0"
        unfolding calls_inv_def by blast
      have l: "fst (attempt_reply (last (attempts ?out))) = ?name" and ne: "attempts ?out \<noteq> []"
        by simp_all
      have "breaker_calls st' = c0 @ ops @ [(?name, Success)] \<and>
            (\<forall>c \<in> set ops. snd c \<noteq> Success) \<and>
            circuit_breakers st' =
              (replay_calls ops b0)(?name := record_success (replay_calls ops b0 ?name))"
        using ops by (simp add: st')
      then have "success_logged c0 b0 ?out st'"
        unfolding success_logged_def l using ne by blast
      with True show ?thesis by (simp add: res)
    next
      case False
      let ?st3 = "?st2\<lparr>last_error :=
                     Some (case r_error r of None \<Rightarrow> ''Unknown error'' | Some e \<Rightarrow> e)\<rparr>"
      have inv3: "calls_inv c0 b0 ?st3"
        using Cons.prems(1) by (simp add: calls_inv_update)
      show ?thesis
      proof (cases "r_retry r \<or> transient_status (r_status_code r)")
        case True
        have inv4: "calls_inv c0 b0 (if int k < mr - 1 then backoff env k ?st3 else ?st3)"
          using inv3 by (simp add: calls_inv_backoff)
        have "retry_loop env mr p ed ks (if int k < mr - 1 then backoff env k ?st3 else ?st3) = (res, st')"
          using Cons.prems(2) Returned False True by (simp add: Let_def split: if_splits)
        from Cons.IH [OF inv4 this] show ?thesis .
      next
        case nt: False
        with Cons.prems(2) Returned False have "res = None" "st' = ?st3"
          by (simp_all add: Let_def)
        with inv3 show ?thesis by simp
      qed
    qed
  qed
qed

lemma provider_loop_calls:
  assumes "calls_inv c0 b0 st" and "provider_loop env mr ed ps st = (out, st')"
  shows "(success out \<longrightarrow> success_logged c0 b0 out st') \<and>
         (\<not> success out \<longrightarrow> calls_inv c0 b0 st')"
  using assms
proof (induction ps arbitrary: st)
  case Nil
  then show ?case by (auto simp: all_failed_not_success)
next
  case (Cons p ps)
  let ?name = "get_provider_name env p"
  let ?now = "time_now env (world st)"
  let ?ok_cb = "can_attempt ?now (circuit_breakers st ?name)"
  let ?st1 = "st\<lparr>circuit_breakers := (circuit_breakers st)(?name := snd ?ok_cb),
                  breaker_calls := breaker_calls st @ [(?name, Attempt ?now)]\<rparr>"
  let ?hw = "is_healthy env p (world ?st1)"
  let ?st2 = "?st1\<lparr>world := snd ?hw\<rparr>"
  have inv1: "calls_inv c0 b0 ?st1"
    using Cons.prems(1) by (rule calls_inv_attempt)
  then have inv2: "calls_inv c0 b0 ?st2"
    by (simp add: calls_inv_update)
  show ?case
  proof (cases "fst ?ok_cb")
    case False
    with Cons.prems(2) have "provider_loop env mr ed ps ?st1 = (out, st')"
      by (simp add: Let_def)
    from Cons.IH [OF inv1 this] show ?thesis .
  next
    case ok: True
    show ?thesis
    proof (cases "fst ?hw")
      case False
      with ok Cons.prems(2) have "provider_loop env mr ed ps ?st2 = (out, st')"
        by (simp add: Let_def)
      from Cons.IH [OF inv2 this] show ?thesis .
    next
      case healthy: True
      obtain res st3 where rl: "retry_loop env mr p ed [0..<nat mr] ?st2 = (res, st3)"
        by (cases "retry_loop env mr p ed [0..<nat mr] ?st2") blast
      note post = retry_loop_calls [OF inv2 rl]
      show ?thesis
      proof (cases res)
        case (Some o1)
        with ok healthy rl Cons.prems(2) have eq: "out = o1" "st' = st3"
          by (simp_all add: Let_def)
        from post Some eq show ?thesis by simp
      next
        case None
        let ?st4 = "st3\<lparr>circuit_breakers :=
                       (circuit_breakers st3)
                         (?name := record_failure (time_now env (world st3))
                                    (circuit_breakers st3 ?name)),
                     breaker_calls :=
                       breaker_calls st3 @ [(?name, Failure (time_now env (world st3)))]\<rparr>"
        from post None have "calls_inv c0 b0 st3" by simp
        then have "calls_inv c0 b0 ?st4" by (rule calls_inv_failure)
        moreover from None ok healthy rl Cons.prems(2)
        have "provider_loop env mr ed ps ?st4 = (out, st')"
          by (simp add: Let_def)
        ultimately show ?thesis using Cons.IH by blast
      qed
    qed
  qed
qed

text \<open>
  C9. When \<open>_send_with_providers\<close> returns a success, the last entry of the attempt trail
  is the successful call, no earlier entry is a success, and the trail records every call of
  a provider's \<open>send_email\<close> that was made (so none follows the success). The last call
  made on any breaker is \<open>record_success\<close> on the breaker of the successful provider, on
  that breaker as the earlier calls of this run left it; it is the only call of
  \<open>record_success\<close>, and the breakers at the end are those at the start after the
  logged calls. When it returns a failure, no entry of the trail is a success, the outcome
  carries the whole trail, its error is \<open>All providers failed. Last error:\<close> followed
  by the error of the last attempt, and no call of \<open>record_success\<close> was made.
\<close>

theorem send_with_providers_outcome:
  assumes "send_with_providers env providers max_retries ed st = (out, st')"
  shows "(success out \<longrightarrow>
            (\<exists>pre n k r ops.
               attempts out = pre @ [ResultAttempt n k r] \<and> r_success r \<and>
               n \<in> get_provider_name env ` set providers \<and>
               (\<forall>a \<in> set pre. \<not> attempt_ok a) \<and>
               sent st' = sent st @ map attempt_reply (attempts out) \<and>
               breaker_calls st' = breaker_calls st @ ops @ [(n, Success)] \<and>
               (\<forall>c \<in> set ops. snd c \<noteq> Success) \<and>
               circuit_breakers st' =
                 (replay_calls ops (circuit_breakers st))
                   (n := record_success (replay_calls ops (circuit_breakers st) n)))) \<and>
         (\<not> success out \<longrightarrow>
            (\<forall>a \<in> set (attempts out). \<not> attempt_ok a) \<and>
            sent st' = sent st @ map attempt_reply (attempts out) \<and>
            attempts out = attempts_acc st' \<and>
            error out = Some (''All providers failed. Last error: '' @
              (if attempts out = [] then ''None'' else attempt_error (last (attempts out)))) \<and>
            (\<exists>ops. breaker_calls st' = breaker_calls st @ ops \<and>
               (\<forall>c \<in> set ops. snd c \<noteq> Success) \<and>
               circuit_breakers st' = replay_calls ops (circuit_breakers st)))"
proof -
  let ?st0 = "st\<lparr>last_error := None, attempts_acc := []\<rparr>"
  let ?ps = "provider_order (get_provider_name env) (to_email ed) providers"
  have inv: "trail_inv (sent st) ?st0"
    by (simp add: trail_inv_def)
  have run: "provider_loop env max_retries ed ?ps ?st0 = (out, st')"
    using assms by (simp add: send_with_providers_def)
  have names: "set ?ps = set providers"
    by (simp add: provider_order_def)
  note post = provider_loop_trail [OF inv run]
  have cinv: "calls_inv (breaker_calls st) (circuit_breakers st) ?st0"
    unfolding calls_inv_def by (intro exI [of _ "[]"]) simp
  note cpost = provider_loop_calls [OF cinv run]
  have ok: "\<exists>pre n k r ops.
               attempts out = pre @ [ResultAttempt n k r] \<and> r_success r \<and>
               n \<in> get_provider_name env ` set providers \<and>
               (\<forall>a \<in> set pre. \<not> attempt_ok a) \<and>
               sent st' = sent st @ map attempt_reply (attempts out) \<and>
               breaker_calls st' = breaker_calls st @ ops @ [(n, Success)] \<and>
               (\<forall>c \<in> set ops. snd c \<noteq> Success) \<and>
               circuit_breakers st' =
                 (replay_calls ops (circuit_breakers st))
                   (n := record_success (replay_calls ops (circuit_breakers st) n))"
    if "success out"
  proof -
    from post that obtain pre n k r where
      t: "attempts out = pre @ [ResultAttempt n k r]" "r_success r"
         "n \<in> get_provider_name env ` set providers"
         "\<forall>a \<in> set pre. \<not> attempt_ok a"
         "sent st' = sent st @ map attempt_reply (attempts out)"
      unfolding delivered_def names by blast
    from t(1) have l: "fst (attempt_reply (last (attempts out))) = n"
      by simp
    from cpost that obtain ops where
      "breaker_calls st' = breaker_calls st @ ops @ [(n, Success)]"
      "\<forall>c \<in> set ops. snd c \<noteq> Success"
      "circuit_breakers st' =
         (replay_calls ops (circuit_breakers st))
           (n := record_success (replay_calls ops (circuit_breakers st) n))"
      unfolding success_logged_def l by blast
    with t show ?thesis by blast
  qed
  have bad: "(\<forall>a \<in> set (attempts out). \<not> attempt_ok a) \<and>
            sent st' = sent st @ map attempt_reply (attempts out) \<and>
            attempts out = attempts_acc st' \<and>
            error out = Some (''All providers failed. Last error: '' @
              (if attempts out = [] then ''None'' else attempt_error (last (attempts out)))) \<and>
            (\<exists>ops. breaker_calls st' = breaker_calls st @ ops \<and>
               (\<forall>c \<in> set ops. snd c \<noteq> Success) \<and>
               circuit_breakers st' = replay_calls ops (circuit_breakers st))"
    if "\<not> success out"
  proof -
    from post that have i: "trail_inv (sent st) st'" and o: "out = all_failed st'"
      by simp_all
    from o have a: "attempts out = attempts_acc st'" by (simp add: all_failed_def)
    from cpost that have c: "calls_inv (breaker_calls st) (circuit_breakers st) st'"
      by simp
    from i o a c show ?thesis
      by (simp add: trail_inv_def all_failed_def calls_inv_def)
  qed
  from ok bad show ?thesis by blast
qed

lemmas demo_defs = demo_fail_def demo_ok_def demo_env_def demo_state_def demo_mail_def
  send_with_providers_def provider_order_def is_stanford_recipient_def py_endswith_def
  py_lower_def lower_char_def is_upper_def priority_stanford_def priority_external_def
  can_attempt_def CircuitBreaker_default_def CircuitBreaker_init_def record_failure_def
  record_success_def transient_status_def backoff_def all_failed_def Let_def

theorem send_with_providers_outcome_witness:
  "success (fst (send_with_providers (demo_env True) [''stanford_smtp'', ''sendgrid''] 3
      demo_mail demo_state)) \<and>
   attempts (fst (send_with_providers (demo_env True) [''stanford_smtp'', ''sendgrid''] 3
      demo_mail demo_state)) =
     [ResultAttempt ''sendgrid'' 1 demo_fail, ResultAttempt ''stanford_smtp'' 1 demo_ok] \<and>
   sent (snd (send_with_providers (demo_env True) [''stanford_smtp'', ''sendgrid''] 3
      demo_mail demo_state)) =
     [(''sendgrid'', Returned demo_fail), (''stanford_smtp'', Returned demo_ok)] \<and>
   breaker_calls (snd (send_with_providers (demo_env True) [''stanford_smtp'', ''sendgrid''] 3
      demo_mail demo_state)) =
     [(''sendgrid'', Attempt 1000), (''sendgrid'', Failure 1000),
      (''stanford_smtp'', Attempt 1000), (''stanford_smtp'', Success)] \<and>
   circuit_breakers (snd (send_with_providers (demo_env True) [''stanford_smtp'', ''sendgrid''] 3
      demo_mail demo_state)) ''stanford_smtp'' = record_success CircuitBreaker_default \<and>
   \<not> success (fst (send_with_providers (demo_env False) [''stanford_smtp'', ''sendgrid''] 3
      demo_mail demo_state)) \<and>
   error (fst (send_with_providers (demo_env False) [''stanford_smtp'', ''sendgrid''] 3
      demo_mail demo_state)) =
     Some ''All providers failed. Last error: Status code: 401''"
proof -
  let ?X = "send_with_providers (demo_env True) [''stanford_smtp'', ''sendgrid''] 3
      demo_mail demo_state"
  let ?Y = "send_with_providers (demo_env False) [''stanford_smtp'', ''sendgrid''] 3
      demo_mail demo_state"
  have x: "?X = (fst ?X, snd ?X)" and y: "?Y = (fst ?Y, snd ?Y)"
    by simp_all
  have sx: "success (fst ?X)" and sy: "\<not> success (fst ?Y)"
    by (simp_all add: demo_defs upt_rec)
  have ax: "attempts (fst ?X) =
      [ResultAttempt ''sendgrid'' 1 demo_fail, ResultAttempt ''stanford_smtp'' 1 demo_ok]"
    by (simp add: demo_defs upt_rec)
  have ay: "attempts (fst ?Y) =
      [ResultAttempt ''sendgrid'' 1 demo_fail, ResultAttempt ''stanford_smtp'' 1 demo_fail]"
    by (simp add: demo_defs upt_rec)
  have s0: "sent demo_state = []"
    by (simp add: demo_state_def)
  from send_with_providers_outcome [OF x] sx
  have "sent (snd ?X) = sent demo_state @ map attempt_reply (attempts (fst ?X))"
    by blast
  then have tx: "sent (snd ?X) =
      [(''sendgrid'', Returned demo_fail), (''stanford_smtp'', Returned demo_ok)]"
    by (simp add: ax s0)
  from send_with_providers_outcome [OF y] sy
  have "error (fst ?Y) = Some (''All providers failed. Last error: '' @
          (if attempts (fst ?Y) = [] then ''None'' else attempt_error (last (attempts (fst ?Y)))))"
    by blast
  then have ey: "error (fst ?Y) = Some ''All providers failed. Last error: Status code: 401''"
    by (simp add: ay demo_fail_def)
  have bx: "breaker_calls (snd ?X) =
     [(''sendgrid'', Attempt 1000), (''sendgrid'', Failure 1000),
      (''stanford_smtp'', Attempt 1000), (''stanford_smtp'', Success)]"
    by (simp add: demo_defs upt_rec)
  have c0: "breaker_calls demo_state = []"
    by (simp add: demo_state_def)
  from send_with_providers_outcome [OF x] sx obtain n ops where
    n: "breaker_calls (snd ?X) = breaker_calls demo_state @ ops @ [(n, Success)]"
       "circuit_breakers (snd ?X) =
          (replay_calls ops (circuit_breakers demo_state))
            (n := record_success (replay_calls ops (circuit_breakers demo_state) n))"
    by blast
  from n(1) have "n = ''stanford_smtp''"
    and "ops = [(''sendgrid'', Attempt 1000), (''sendgrid'', Failure 1000),
                (''stanford_smtp'', Attempt 1000)]"
    unfolding bx c0 by auto
  with n(2) have cx: "circuit_breakers (snd ?X) ''stanford_smtp'' =
      record_success CircuitBreaker_default"
    by (simp add: demo_state_def can_attempt_def CircuitBreaker_default_def
          CircuitBreaker_init_def)
  from sx ax tx bx cx sy ey show ?thesis by blast
qed

section \<open>Properties of the next identifier\<close>

lemma py_int_empty: "py_int [] = None"
  by (simp add: py_int_def py_strip_def)

lemma assigned_in_range_Nil: "assigned_in_range rng [] = {}"
  by (simp add: assigned_in_range_def)

lemma assigned_in_range_Cons:
  "assigned_in_range rng (r # rs) =
     (case py_int (py_strip (record_get r ''assigned_study_id_a690e9'')) of
        None \<Rightarrow> {}
      | Some v \<Rightarrow> if range_min rng \<le> v \<and> v \<le> range_max rng then {v} else {})
     \<union> assigned_in_range rng rs"
  by (auto simp: assigned_in_range_def split: option.splits)

lemma set_collect_ids:
  "set (collect_ids rng rs acc) = set acc \<union> assigned_in_range rng rs"
proof (induction rs arbitrary: acc)
  case Nil
  then show ?case by (simp add: assigned_in_range_Nil)
next
  case (Cons r rs)
  show ?case
  proof (cases "py_strip (record_get r ''assigned_study_id_a690e9'') = []")
    case True
    then show ?thesis
      by (simp add: Cons.IH assigned_in_range_Cons py_int_empty)
  next
    case False
    then show ?thesis
      by (auto simp: Cons.IH assigned_in_range_Cons Let_def split: option.splits)
  qed
qed

lemma finite_assigned_in_range: "finite (assigned_in_range rng rs)"
  using set_collect_ids [of rng rs "[]"] by (metis List.finite_set sup_bot.left_neutral set_empty2 empty_set)

lemma assigned_in_range_le: "v \<in> assigned_in_range rng rs \<Longrightarrow> range_min rng \<le> v \<and> v \<le> range_max rng"
  by (auto simp: assigned_in_range_def)

lemma next_id_eq_spec: "next_id rng records = next_id_spec rng records"
proof (cases "collect_ids rng records []")
  case Nil
  then have "assigned_in_range rng records = {}"
    using set_collect_ids [of rng records "[]"] by simp
  with Nil show ?thesis by (simp add: next_id_def next_id_spec_def)
next
  case (Cons x xs)
  then have s: "assigned_in_range rng records = set (x # xs)"
    using set_collect_ids [of rng records "[]"] by simp
  have ne: "assigned_in_range rng records \<noteq> {}"
    using s by simp
  have m: "fold max xs x = Max (assigned_in_range rng records)"
    unfolding s by (rule Max.set_eq_fold [symmetric])
  have "Max (assigned_in_range rng records) \<in> assigned_in_range rng records"
    using ne by (intro Max_in finite_assigned_in_range)
  then have le: "Max (assigned_in_range rng records) \<le> range_max rng"
    using assigned_in_range_le by blast
  have "next_id rng records =
          (if Max (assigned_in_range rng records) + 1 > range_max rng
           then Inl RangeExhausted else Inr (Max (assigned_in_range rng records) + 1))"
    using Cons m by (simp add: next_id_def Let_def)
  also have "\<dots> = next_id_spec rng records"
    using ne le by (simp add: next_id_spec_def)
  finally show ?thesis .
qed

lemmas alloc_eval = get_next_dynamic_id_def export_records_def import_records_def make_request_def
  scripted_repo_def fresh_state_def next_id_def record_get_def py_int_def py_strip_def
  is_space_def is_digit_def digit_val_def Let_def

text \<open>
  C2 (as amended). Whenever the export succeeds, \<open>get_next_dynamic_id\<close> keeps the
  assigned identifiers that parse as integers within the category's range and returns one
  more than their maximum when there is one and it is below the range's maximum, the
  range's minimum when there is none, and raises the range-exhausted error when the maximum
  is the range's maximum. For the range 3000 to 10199 with 3000, 3001 and 3005 assigned it
  returns 3006.
\<close>

theorem get_next_dynamic_id_next:
  assumes "export_records env [''record_id'', ''assigned_study_id_a690e9''] None st = (Inr records, st1)"
  shows "get_next_dynamic_id env g st = (next_id_spec (ID_RANGES g) records, st1)"
  using assms by (simp add: get_next_dynamic_id_def next_id_eq_spec)

theorem get_next_dynamic_id_next_witness:
  "fst (get_next_dynamic_id (scripted_repo [(''records'', scenario_A)]) healthy_control
          (fresh_state [HttpResponse 200 ''records''])) = Inr 3006 \<and>
   next_id_spec (ID_RANGES healthy_control) scenario_A = Inr 3006"
proof -
  let ?env = "scripted_repo [(''records'', scenario_A)]"
  let ?st = "fresh_state [HttpResponse 200 ''records'']"
  let ?ex = "export_records ?env [''record_id'', ''assigned_study_id_a690e9''] None ?st"
  have "fst ?ex = Inr scenario_A"
    by (simp add: export_records_def make_request_def scripted_repo_def fresh_state_def Let_def)
  then have e: "?ex = (Inr scenario_A, snd ?ex)"
    by (metis prod.collapse)
  have v: "fst (get_next_dynamic_id ?env healthy_control ?st) = Inr 3006"
    by (simp add: alloc_eval scenario_A_def)
  from get_next_dynamic_id_next [OF e, of healthy_control] v show ?thesis by simp
qed

text \<open>
  C2 as stated fails: with 10199 assigned in the range 3000 to 10199, an identifier in the
  range exists but \<open>get_next_dynamic_id\<close> does not return 10200; it raises.
\<close>

theorem get_next_dynamic_id_exhausted_counterexample:
  "fst (get_next_dynamic_id (scripted_repo [(''records'', scenario_E)]) healthy_control
          (fresh_state [HttpResponse 200 ''records''])) = Inl RangeExhausted \<and>
   fst (get_next_dynamic_id (scripted_repo [(''records'', scenario_E)]) healthy_control
          (fresh_state [HttpResponse 200 ''records''])) \<noteq> Inr (10199 + 1)"
  by (simp add: alloc_eval scenario_E_def)


section \<open>Range exhaustion\<close>








section \<open>The retry loop\<close>

lemma make_request_state:
  assumes "make_request env req st = (r, st')"
  shows "trace st' = trace st @ [Posted req] \<and> new_id st' = new_id st \<and>
         attempt st' = attempt st \<and> counters st' = counters st"
  using assms by (auto simp: make_request_def Let_def split: http_reply.splits if_splits)

lemma export_records_state:
  assumes "export_records env flds fl st = (r, st')"
  shows "trace st' = trace st @ [Posted (ExportRecords flds fl)] \<and> new_id st' = new_id st \<and>
         attempt st' = attempt st \<and> counters st' = counters st"
proof -
  obtain r0 st0 where m: "make_request env (ExportRecords flds fl) st = (r0, st0)"
    by (cases "make_request env (ExportRecords flds fl) st") blast
  with assms have "st' = st0"
    by (auto simp: export_records_def split: sum.splits option.splits)
  with make_request_state [OF m] show ?thesis by simp
qed

lemma import_records_state:
  assumes "import_records env recs ow st = (r, st')"
  shows "trace st' = trace st @ [Posted (ImportRecords recs ow)] \<and> new_id st' = new_id st \<and>
         attempt st' = attempt st \<and> counters st' = counters st"
proof -
  obtain r0 st0 where m: "make_request env (ImportRecords recs ow) st = (r0, st0)"
    by (cases "make_request env (ImportRecords recs ow) st") blast
  with assms have "st' = st0"
    by (auto simp: import_records_def split: sum.splits option.splits)
  with make_request_state [OF m] show ?thesis by simp
qed

lemma get_next_dynamic_id_state:
  assumes "get_next_dynamic_id env g st = (r, st')"
  shows "trace st' = trace st @ [Posted export_ids] \<and> new_id st' = new_id st \<and>
         attempt st' = attempt st \<and> counters st' = counters st"
proof -
  obtain r0 st0 where
    e: "export_records env [''record_id'', ''assigned_study_id_a690e9''] None st = (r0, st0)"
    by (cases "export_records env [''record_id'', ''assigned_study_id_a690e9''] None st") blast
  with assms have "st' = st0"
    by (auto simp: get_next_dynamic_id_def split: sum.splits)
  with export_records_state [OF e] show ?thesis by (simp add: export_ids_def)
qed

lemma count_assigned_trace: "trace (count_assigned g st) = trace st"
  by (simp add: count_assigned_def Let_def)

lemma try_assign_trace:
  assumes "try_assign env record_id g st = (r, st')"
  shows "\<exists>ws. trace st' = trace st @ Posted export_ids # ws \<and> Posted export_ids \<notin> set ws"
proof -
  obtain r0 st1 where n: "get_next_dynamic_id env g st = (r0, st1)"
    by (cases "get_next_dynamic_id env g st") blast
  note t1 = get_next_dynamic_id_state [OF n]
  show ?thesis
  proof (cases r0)
    case (Inl e)
    with assms n have "st' = st1" by (simp add: try_assign_def)
    with t1 show ?thesis by simp
  next
    case (Inr nid)
    let ?ud = "update_data_of record_id nid"
    let ?st2 = "st1\<lparr>new_id := Some nid\<rparr>"
    obtain r1 st3 where i1: "import_records env [with_flag ?ud] ''overwrite'' ?st2 = (r1, st3)"
      by (cases "import_records env [with_flag ?ud] ''overwrite'' ?st2") blast
    note t3 = import_records_state [OF i1]
    obtain r2 st4 where i2: "import_records env [?ud] ''overwrite'' st3 = (r2, st4)"
      by (cases "import_records env [?ud] ''overwrite'' st3") blast
    note t4 = import_records_state [OF i2]
    let ?w1 = "Posted (ImportRecords [with_flag ?ud] ''overwrite'')"
    let ?w2 = "Posted (ImportRecords [?ud] ''overwrite'')"
    from assms n Inr i1 i2
    have "trace st' = trace st3 \<or> trace st' = trace st4"
      by (auto simp: try_assign_def Let_def count_assigned_trace
            split: sum.splits alloc_error.splits)
    then have "trace st' = trace st @ Posted export_ids # [?w1] \<or>
               trace st' = trace st @ Posted export_ids # [?w1, ?w2]"
      using t1 t3 t4 by auto
    then show ?thesis
      by (auto simp: export_ids_def)
  qed
qed

lemma on_error_trace:
  assumes "on_error env k e st = (c, st')"
  shows "\<exists>ws. trace st' = trace st @ ws \<and> Posted export_ids \<notin> set ws"
  using assms
  by (auto simp: on_error_def add_error_def backoff_sleep_def
        split: alloc_error.splits if_splits option.splits)

lemma retry_assign_trace:
  assumes "retry_assign env record_id g ks s = (res, s')"
  shows "\<exists>evs. trace s' = trace s @ evs \<and>
           length (filter (\<lambda>e. e = Posted export_ids) evs) \<le> length ks \<and>
           (ks \<noteq> [] \<longrightarrow> (\<exists>ws. evs = Posted export_ids # ws))"
  using assms
proof (induction ks arbitrary: s)
  case Nil
  then show ?case by simp
next
  case (Cons k ks)
  let ?s0 = "s\<lparr>attempt := Some k\<rparr>"
  obtain r s1 where t: "try_assign env record_id g ?s0 = (r, s1)"
    by (cases "try_assign env record_id g ?s0") blast
  from try_assign_trace [OF t] obtain ws where
    ws: "trace s1 = trace s @ Posted export_ids # ws" "Posted export_ids \<notin> set ws"
    by auto
  have nofilter: "filter (\<lambda>e. e = Posted export_ids) xs = []" if "Posted export_ids \<notin> set xs"
    for xs :: "event list"
    using that by (induction xs) auto
  show ?case
  proof (cases r)
    case (Inr u)
    with Cons.prems t have "s' = s1" by simp
    with ws show ?thesis by (simp add: nofilter)
  next
    case (Inl e)
    obtain c s2 where oe: "on_error env k e s1 = (c, s2)"
      by (cases "on_error env k e s1") blast
    from on_error_trace [OF oe] obtain vs where
      vs: "trace s2 = trace s1 @ vs" "Posted export_ids \<notin> set vs"
      by auto
    show ?thesis
    proof (cases c)
      case Break
      with Cons.prems t Inl oe have "s' = s2" by simp
      with ws vs show ?thesis by (simp add: nofilter)
    next
      case (Raise x)
      with Cons.prems t Inl oe have "s' = s2" by simp
      with ws vs show ?thesis by (simp add: nofilter)
    next
      case Continue
      with Cons.prems t Inl oe have "retry_assign env record_id g ks s2 = (res, s')" by simp
      from Cons.IH [OF this] obtain evs where
        evs: "trace s' = trace s2 @ evs"
             "length (filter (\<lambda>e. e = Posted export_ids) evs) \<le> length ks"
        by auto
      with ws vs show ?thesis by (simp add: nofilter)
    qed
  qed
qed

text \<open>
  C3 (as amended). Take an attempt whose write of the candidate with the \<open>id_assigned\<close>
  flag raises a \<open>RedcapApiError\<close>: the same candidate is then posted without the flag,
  with no read in between. When the write without the flag fails too and its failure is
  classified as a uniqueness violation, the loop goes on to the next attempt for the same
  record, after a sleep of \<open>0.5 * 2 ^ attempt\<close> seconds unless this was the last of the
  \<open>MAX_RETRIES = 3\<close> attempts; every attempt starts with a fresh export, and at most one
  export is posted per attempt. When that failure is not classified as a uniqueness
  violation, the loop ends at once with the error counted, whatever attempts remain.
\<close>

theorem retry_on_unique_violation:
  assumes nxt: "get_next_dynamic_id env g (st\<lparr>attempt := Some k\<rparr>) = (Inr nid, st1)"
      and w1: "import_records env [with_flag (update_data_of record_id nid)] ''overwrite''
                 (st1\<lparr>new_id := Some nid\<rparr>) = (Inl (ApiError a1), st2)"
      and w2: "import_records env [update_data_of record_id nid] ''overwrite'' st2 =
                 (Inl (ApiError a2), st3)"
  shows "(is_unique_constraint_violation a2 \<longrightarrow>
            retry_assign env record_id g (k # rest) st =
              retry_assign env record_id g rest
                (if int k < int MAX_RETRIES - 1 then backoff_sleep env k st3 else st3)) \<and>
         (\<not> is_unique_constraint_violation a2 \<longrightarrow>
            retry_assign env record_id g (k # rest) st = (Inr False, add_error st3)) \<and>
         trace st3 =
           trace st @
           [Posted export_ids,
            Posted (ImportRecords [with_flag (update_data_of record_id nid)] ''overwrite''),
            Posted (ImportRecords [update_data_of record_id nid] ''overwrite'')] \<and>
         trace (backoff_sleep env k st3) = trace st3 @ [Slept ((1 / 2) * 2 ^ k)] \<and>
         (\<forall>ks s res s'. retry_assign env record_id g ks s = (res, s') \<longrightarrow>
            (\<exists>evs. trace s' = trace s @ evs \<and>
               length (filter (\<lambda>e. e = Posted export_ids) evs) \<le> length ks \<and>
               (ks \<noteq> [] \<longrightarrow> (\<exists>ws. evs = Posted export_ids # ws)))) \<and>
         length [0..<MAX_RETRIES] = 3"
proof -
  have t: "try_assign env record_id g (st\<lparr>attempt := Some k\<rparr>) = (Inl (ApiError a2), st3)"
    using nxt w1 w2 by (simp add: try_assign_def)
  have "new_id st3 = Some nid"
    using import_records_state [OF w1] import_records_state [OF w2] by simp
  then have viol: "on_error env k (ApiError a2) st3 =
      (Continue, if int k < int MAX_RETRIES - 1 then backoff_sleep env k st3 else st3)"
    if "is_unique_constraint_violation a2"
    using that by (simp add: on_error_def)
  have fatal: "on_error env k (ApiError a2) st3 = (Break, add_error st3)"
    if "\<not> is_unique_constraint_violation a2"
    using that by (simp add: on_error_def)
  have a: "retry_assign env record_id g (k # rest) st =
              retry_assign env record_id g rest
                (if int k < int MAX_RETRIES - 1 then backoff_sleep env k st3 else st3)"
    if "is_unique_constraint_violation a2"
    using t viol [OF that] by simp
  have b: "retry_assign env record_id g (k # rest) st = (Inr False, add_error st3)"
    if "\<not> is_unique_constraint_violation a2"
    using t fatal [OF that] by simp
  have c: "trace (backoff_sleep env k st3) = trace st3 @ [Slept ((1 / 2) * 2 ^ k)]"
    by (simp add: backoff_sleep_def)
  have d: "length [0..<MAX_RETRIES] = 3"
    by (simp add: MAX_RETRIES_def)
  have e: "trace st3 =
           trace st @
           [Posted export_ids,
            Posted (ImportRecords [with_flag (update_data_of record_id nid)] ''overwrite''),
            Posted (ImportRecords [update_data_of record_id nid] ''overwrite'')]"
    using get_next_dynamic_id_state [OF nxt] import_records_state [OF w1]
      import_records_state [OF w2]
    by simp
  from a b c d e retry_assign_trace [of env record_id g] show ?thesis by blast
qed

lemmas retry_eval = alloc_eval collision_repo_def collision_script_def fallback_script_def
  try_assign_def on_error_def backoff_sleep_def add_error_def count_assigned_def
  is_unique_constraint_violation_def RedcapApiError_init_def default_detection_strings_def
  py_lower_def lower_char_def is_upper_def MAX_RETRIES_def export_ids_def no_stats_def

theorem retry_on_unique_violation_witness:
  "fst (retry_assign collision_repo (Some ''9'') healthy_control [0..<MAX_RETRIES]
          (fresh_state collision_script)) = Inr True \<and>
   trace (snd (retry_assign collision_repo (Some ''9'') healthy_control [0..<MAX_RETRIES]
          (fresh_state collision_script))) =
     [Posted export_ids,
      Posted (ImportRecords [with_flag (update_data_of (Some ''9'') 3006)] ''overwrite''),
      Posted (ImportRecords [update_data_of (Some ''9'') 3006] ''overwrite''),
      Slept (1 / 2),
      Posted export_ids,
      Posted (ImportRecords [with_flag (update_data_of (Some ''9'') 3007)] ''overwrite'')]"
proof -
  let ?env = "collision_repo"
  let ?st = "fresh_state collision_script"
  let ?n = "get_next_dynamic_id ?env healthy_control (?st\<lparr>attempt := Some 0\<rparr>)"
  let ?w1 = "import_records ?env [with_flag (update_data_of (Some ''9'') 3006)] ''overwrite''
               ((snd ?n)\<lparr>new_id := Some 3006\<rparr>)"
  let ?w2 = "import_records ?env [update_data_of (Some ''9'') 3006] ''overwrite'' (snd ?w1)"
  let ?a1 = "RedcapApiError_init (Some 400) (Some ''ERROR: id_assigned is not a valid field'')
               (Some default_detection_strings)"
  let ?a2 = "RedcapApiError_init (Some 409) (Some ''Duplicate value for assigned_study_id'')
               (Some default_detection_strings)"
  have "fst ?n = Inr 3006"
    by (simp add: retry_eval scenario_A_def)
  then have n: "?n = (Inr 3006, snd ?n)"
    by (metis prod.collapse)
  have "fst ?w1 = Inl (ApiError ?a1)"
    by (simp add: retry_eval scenario_A_def)
  then have w1: "?w1 = (Inl (ApiError ?a1), snd ?w1)"
    by (metis prod.collapse)
  have "fst ?w2 = Inl (ApiError ?a2)"
    by (simp add: retry_eval scenario_A_def)
  then have w2: "?w2 = (Inl (ApiError ?a2), snd ?w2)"
    by (metis prod.collapse)
  have v: "is_unique_constraint_violation ?a2"
    by (simp add: retry_eval)
  have ks: "[0..<MAX_RETRIES] = 0 # [1, 2]"
    by (simp add: MAX_RETRIES_def upt_rec)
  from retry_on_unique_violation [OF n w1 w2, of "[1, 2]"] v
  have step: "retry_assign ?env (Some ''9'') healthy_control (0 # [1, 2]) ?st =
     retry_assign ?env (Some ''9'') healthy_control [1, 2]
       (if int 0 < int MAX_RETRIES - 1 then backoff_sleep ?env 0 (snd ?w2) else snd ?w2)"
    by blast
  have rest: "fst (retry_assign ?env (Some ''9'') healthy_control [1, 2]
       (if int 0 < int MAX_RETRIES - 1 then backoff_sleep ?env 0 (snd ?w2) else snd ?w2)) = Inr True"
    by (simp add: retry_eval scenario_A_def scenario_B_def)
  have rest_trace: "trace (snd (retry_assign ?env (Some ''9'') healthy_control [1, 2]
       (if int 0 < int MAX_RETRIES - 1 then backoff_sleep ?env 0 (snd ?w2) else snd ?w2))) =
     [Posted export_ids,
      Posted (ImportRecords [with_flag (update_data_of (Some ''9'') 3006)] ''overwrite''),
      Posted (ImportRecords [update_data_of (Some ''9'') 3006] ''overwrite''),
      Slept (1 / 2),
      Posted export_ids,
      Posted (ImportRecords [with_flag (update_data_of (Some ''9'') 3007)] ''overwrite'')]"
    by (simp add: retry_eval scenario_A_def scenario_B_def)
  from step rest rest_trace show ?thesis
    unfolding ks by simp
qed

text \<open>
  C3 as stated fails: a write failure that is not classified as a uniqueness violation
  (here the write with the flag, refused with status 400) is followed by a second write of
  the same candidate, and the record is assigned.
\<close>

theorem fallback_write_counterexample:
  "\<not> is_unique_constraint_violation
       (RedcapApiError_init (Some 400) (Some ''ERROR: id_assigned is not a valid field'')
          (Some default_detection_strings)) \<and>
   fst (retry_assign collision_repo (Some ''9'') healthy_control [0..<MAX_RETRIES]
          (fresh_state fallback_script)) = Inr True \<and>
   trace (snd (retry_assign collision_repo (Some ''9'') healthy_control [0..<MAX_RETRIES]
          (fresh_state fallback_script))) =
     [Posted export_ids,
      Posted (ImportRecords [with_flag (update_data_of (Some ''9'') 3006)] ''overwrite''),
      Posted (ImportRecords [update_data_of (Some ''9'') 3006] ''overwrite'')]"
  by (simp add: retry_eval scenario_A_def upt_rec)


section \<open>Failure of the fetch\<close>

text \<open>
  C10 (as amended). When fetching the batch fails with a network error or with a response
  of status 400 or more, \<open>process_records\<close> catches the error and returns 0: the fetch is
  the only request posted, and no record is processed.
\<close>

theorem process_records_fetch_failure:
  assumes "fst (session_post env (fetch_request retroactive) (repo st)) = RequestException \<or>
           (\<exists>sc txt. fst (session_post env (fetch_request retroactive) (repo st)) =
                        HttpResponse sc txt \<and> 400 \<le> sc)"
  shows "process_records env retroactive st =
           (Inr 0,
            st\<lparr>counters := no_stats, new_id := None, attempt := None,
               repo := snd (session_post env (fetch_request retroactive) (repo st)),
               trace := trace st @ [Posted (fetch_request retroactive)]\<rparr>)"
  using assms
  by (auto simp: process_records_def export_records_def make_request_def fetch_request_def
        Let_def)

theorem process_records_fetch_failure_witness:
  "process_records (scripted_repo []) False (fresh_state [HttpResponse 503 ''Service Unavailable'']) =
     (Inr 0, (fresh_state [])\<lparr>trace := [Posted (fetch_request False)]\<rparr>)"
proof -
  let ?env = "scripted_repo [] :: (http_reply list) redcap_env"
  let ?st = "fresh_state [HttpResponse 503 ''Service Unavailable'']"
  have "fst (session_post ?env (fetch_request False) (repo ?st)) =
          HttpResponse 503 ''Service Unavailable'' \<and> (400::int) \<le> 503"
    by (simp add: scripted_repo_def fresh_state_def)
  then have h: "fst (session_post ?env (fetch_request False) (repo ?st)) = RequestException \<or>
           (\<exists>sc txt. fst (session_post ?env (fetch_request False) (repo ?st)) =
                        HttpResponse sc txt \<and> 400 \<le> sc)"
    by blast
  from process_records_fetch_failure [OF h] show ?thesis
    by (simp add: scripted_repo_def fresh_state_def)
qed

text \<open>
  C10 as stated fails: a network error and a response of status 500 on the fetch are not
  raised to the caller of \<open>process_records\<close>, which returns 0.
\<close>

theorem process_records_swallows_counterexample:
  "fst (process_records (scripted_repo []) False (fresh_state [RequestException])) = Inr 0 \<and>
   fst (process_records (scripted_repo []) False
          (fresh_state [HttpResponse 500 ''Internal Server Error''])) = Inr 0 \<and>
   fst (process_records (scripted_repo []) False (fresh_state [RequestException])) \<noteq>
     Inl (ApiError (RedcapApiError_init None None None))"
  by (simp add: process_records_def export_records_def make_request_def scripted_repo_def
        fresh_state_def Let_def)

end
